theory Spec2Isabelle
  imports Complex_Main "HOL-Library.Char_ord" "HOL-Library.List_Lexorder"
begin

section \<open>Data model\<close>

text \<open>
  The program (\<open>src/graph_viz/app.py\<close>) works on a networkx \<open>MultiDiGraph\<close>: accounts are
  nodes carrying an attribute dictionary, and every interaction event is one directed
  parallel edge carrying a numeric \<open>timestamp\<close> and an optional \<open>edge_type\<close>.
  Node ids are strings (so \<open>str(id) = id\<close>); timestamps and every value computed with
  Python's true division are modelled as exact rationals.
\<close>

type_synonym node_id = string

record node_attrs =
  username :: "string option"
  follower_count :: "int option"
  following_count :: "int option"

record event =
  ev_source :: node_id
  ev_target :: node_id
  ev_timestamp :: rat
  ev_edge_type :: "string option"

text \<open>
  \<open>g_nodes\<close> is the node dictionary in insertion order, \<open>g_edges\<close> the events in the order
  in which \<open>G.edges(data=True)\<close> yields them.
\<close>

record graph =
  g_nodes :: "(node_id \<times> node_attrs) list"
  g_edges :: "event list"

definition node_ids :: "graph \<Rightarrow> node_id list" where
  "node_ids G = map fst (g_nodes G)"

text \<open>What networkx maintains by construction: node keys are unique and every edge joins two nodes
  of the graph.\<close>

definition wf_graph :: "graph \<Rightarrow> bool" where
  "wf_graph G \<longleftrightarrow>
     distinct (node_ids G) \<and>
     list_all (\<lambda>e. ev_source e \<in> set (node_ids G) \<and> ev_target e \<in> set (node_ids G)) (g_edges G)"

datatype error =
    KeyError node_id
  | ValueError
  | NodeNotFound node_id
  | NetworkXNoPath
  | AttributeError
  | FetchError

subsection \<open>Python containers\<close>

text \<open>A Python \<open>set\<close> of strings, kept as a duplicate-free list. Python leaves the iteration order of a
  set unspecified; the model iterates in insertion order.\<close>

definition set_add :: "'a \<Rightarrow> 'a list \<Rightarrow> 'a list" where
  "set_add x s = (if x \<in> set s then s else s @ [x])"

definition py_set :: "'a list \<Rightarrow> 'a list" where
  "py_set xs = foldl (\<lambda>s x. set_add x s) [] xs"

text \<open>A \<open>collections.Counter\<close>: keys in insertion order, \<open>c[k] += 1\<close> creates a missing key.\<close>

type_synonym counter = "(string \<times> nat) list"

definition counter_incr :: "string \<Rightarrow> counter \<Rightarrow> counter" where
  "counter_incr k c =
     (if k \<in> fst ` set c then map (\<lambda>(k', n). if k' = k then (k', n + 1) else (k', n)) c
      else c @ [(k, 1)])"

text \<open>\<open>d[k] = f(d[k])\<close> on a dictionary kept as an association list.\<close>

definition dict_modify :: "'k \<Rightarrow> ('v \<Rightarrow> 'v) \<Rightarrow> ('k \<times> 'v) list \<Rightarrow> ('k \<times> 'v) list" where
  "dict_modify k f d = map (\<lambda>(k', v). if k' = k then (k', f v) else (k', v)) d"

text \<open>\<open>min(xs) if xs else 0\<close>.\<close>

definition min_or_zero :: "nat list \<Rightarrow> nat" where
  "min_or_zero xs = (case xs of [] \<Rightarrow> 0 | y # ys \<Rightarrow> foldl min y ys)"

text \<open>\<open>sorted(d, key=d.get, reverse=True)\<close>: the keys by descending value; Python's sort is stable also
  with \<open>reverse=True\<close>.\<close>

definition sorted_desc :: "(node_id \<times> nat) list \<Rightarrow> node_id list" where
  "sorted_desc d = map fst (sort_key (\<lambda>(n, s). - int s) d)"

text \<open>The slice \<open>xs[:n]\<close>; a negative \<open>n\<close> counts from the end.\<close>

definition py_take :: "int \<Rightarrow> 'a list \<Rightarrow> 'a list" where
  "py_take n xs = (if 0 \<le> n then take (nat n) xs else take (length xs - nat (- n)) xs)"

text \<open>\<open>int(x)\<close> truncates towards zero.\<close>

definition py_int :: "rat \<Rightarrow> int" where
  "py_int x = (if 0 \<le> x then \<lfloor>x\<rfloor> else \<lceil>x\<rceil>)"

section \<open>Connection Ranker and global filter\<close>

text \<open>\<open>len(G.get_edge_data(u, v, default={}))\<close> on a \<open>MultiDiGraph\<close>: the number of parallel edges
  from \<open>u\<close> to \<open>v\<close>.\<close>

definition get_edge_data_len :: "graph \<Rightarrow> node_id \<Rightarrow> node_id \<Rightarrow> nat" where
  "get_edge_data_len G u v =
     length (filter (\<lambda>e. ev_source e = u \<and> ev_target e = v) (g_edges G))"

definition calculate_connection_strength :: "graph \<Rightarrow> node_id list \<Rightarrow> (node_id \<times> nat) list" where
  "calculate_connection_strength G core_nodes =
     map (\<lambda>node.
            (node, min_or_zero
               (map (\<lambda>core_node. get_edge_data_len G node core_node
                                  + get_edge_data_len G core_node node) core_nodes)))
         (filter (\<lambda>node. node \<notin> set core_nodes) (node_ids G))"

text \<open>\<open>G.subgraph(nodes).copy()\<close>: node ids that are not in \<open>G\<close> are ignored.\<close>

definition subgraph :: "graph \<Rightarrow> node_id list \<Rightarrow> graph" where
  "subgraph G keep =
     \<lparr> g_nodes = filter (\<lambda>(n, a). n \<in> set keep) (g_nodes G),
       g_edges = filter (\<lambda>e. ev_source e \<in> set keep \<and> ev_target e \<in> set keep) (g_edges G) \<rparr>"

definition filter_graph_top :: "graph \<Rightarrow> node_id list \<Rightarrow> nat \<Rightarrow> graph" where
  "filter_graph_top G core_nodes top_n =
     (let connection_strength = calculate_connection_strength G core_nodes;
          top_nodes = take top_n (sorted_desc connection_strength);
          filtered_nodes = py_set (top_nodes @ core_nodes)
      in subgraph G filtered_nodes)"

definition filter_graph :: "graph \<Rightarrow> node_id list \<Rightarrow> graph" where
  "filter_graph G core_nodes = filter_graph_top G core_nodes 25"

section \<open>Normalizer\<close>

definition normalize_value :: "rat \<Rightarrow> rat \<Rightarrow> rat \<Rightarrow> rat \<Rightarrow> rat \<Rightarrow> rat" where
  "normalize_value v min_val max_val new_min new_max =
     (if max_val = min_val then new_min
      else ((v - min_val) / (max_val - min_val)) * (new_max - new_min) + new_min)"

section \<open>Snapshot Builder\<close>

text \<open>The aggregated edge of one unordered pair, as \<open>get_elements\<close> keeps it under \<open>'data'\<close>.
  \<open>normalized_weight\<close> is set by the thickness pass; the flag \<open>edge_to_core\<close> holds the
  strings \<open>'true'\<close> / \<open>'false'\<close> in the source.\<close>

record edge_data =
  source :: node_id
  target :: node_id
  weight :: nat
  edge_types :: counter
  edge_to_core :: bool
  interactions :: "(node_id \<times> counter) list"
  normalized_weight :: "rat option"

text \<open>The data of a node element. \<open>centrality\<close> and \<open>betweenness\<close> are \<open>None\<close> where the source writes
  \<open>'N/A'\<close>; \<open>color\<close> holds the three components of the \<open>rgb(...)\<close> string; \<open>node_to_core\<close> exists
  only after a focal node was given.\<close>

record node_data =
  nd_id :: node_id
  label :: string
  node_size :: rat
  fid :: node_id
  display_name :: string
  nd_follower_count :: int
  nd_following_count :: int
  is_core :: bool
  centrality :: "rat option"
  betweenness :: "rat option"
  color :: "int \<times> int \<times> int"
  connected_core_nodes :: nat
  node_to_core :: "bool option"

datatype element = Node node_data | Edge edge_data

type_synonym edge_dict_t = "((node_id \<times> node_id) \<times> edge_data) list"

record loop_state =
  active_nodes :: "node_id list"
  edge_dict :: edge_dict_t
  edges_up_to_timestamp :: "event list"

text \<open>\<open>tuple(sorted((source, target)))\<close>: strings compare lexicographically by code point.\<close>

definition sorted_pair :: "node_id \<Rightarrow> node_id \<Rightarrow> node_id \<times> node_id" where
  "sorted_pair a b = (if a \<le> b then (a, b) else (b, a))"

definition new_edge :: "node_id \<Rightarrow> node_id \<Rightarrow> string \<Rightarrow> edge_data" where
  "new_edge src tgt edge_type =
     \<lparr> source = src, target = tgt, weight = 1, edge_types = [(edge_type, 1)],
       edge_to_core = False,
       interactions = [(src, [(edge_type, 1)]), (tgt, [])],
       normalized_weight = None \<rparr>"

definition bump_edge :: "node_id \<Rightarrow> string \<Rightarrow> edge_data \<Rightarrow> edge_data" where
  "bump_edge src edge_type d =
     d\<lparr> weight := weight d + 1,
        edge_types := counter_incr edge_type (edge_types d),
        interactions := dict_modify src (counter_incr edge_type) (interactions d) \<rparr>"

text \<open>One iteration of the loop over \<open>G.edges(data=True)\<close>.\<close>

definition collect_step :: "rat \<Rightarrow> loop_state \<Rightarrow> event \<Rightarrow> loop_state" where
  "collect_step timestamp st edge =
     (if ev_timestamp edge \<le> timestamp then
        let src = ev_source edge;
            tgt = ev_target edge;
            st' = st\<lparr> active_nodes := set_add tgt (set_add src (active_nodes st)),
                      edges_up_to_timestamp := edges_up_to_timestamp st @ [edge] \<rparr>
        in if src \<noteq> tgt then
             let edge_type = (case ev_edge_type edge of None \<Rightarrow> ''Unknown'' | Some t \<Rightarrow> t);
                 key = sorted_pair src tgt
             in if key \<notin> fst ` set (edge_dict st')
                then st'\<lparr> edge_dict := edge_dict st' @ [(key, new_edge src tgt edge_type)] \<rparr>
                else st'\<lparr> edge_dict := dict_modify key (bump_edge src edge_type) (edge_dict st') \<rparr>
           else st'
      else st)"

definition collect_edges :: "graph \<Rightarrow> rat \<Rightarrow> node_id list \<Rightarrow> loop_state" where
  "collect_edges G timestamp core_nodes =
     foldl (collect_step timestamp)
       \<lparr> active_nodes = py_set core_nodes, edge_dict = [], edges_up_to_timestamp = [] \<rparr>
       (g_edges G)"

text \<open>The thickness pass: skipped when there is no edge.\<close>

definition normalize_edges :: "edge_dict_t \<Rightarrow> edge_dict_t" where
  "normalize_edges ed =
     (case map (\<lambda>(k, d). weight d) ed of
        [] \<Rightarrow> ed
      | w # ws \<Rightarrow>
          (let max_weight = foldl max w ws
           in map (\<lambda>(k, d). (k, d\<lparr> normalized_weight :=
                     Some (normalize_value (of_nat (weight d)) 1 (of_nat max_weight) (3 / 2) 15) \<rparr>)) ed))"

subsection \<open>The temporary undirected graph\<close>

text \<open>A networkx \<open>Graph\<close>: nodes in insertion order and each undirected edge once, in the order in
  which it was first added. Parallel edges collapse; a self-loop is an edge like any other.\<close>

record simple_graph =
  sg_nodes :: "node_id list"
  sg_edges :: "(node_id \<times> node_id) list"

definition has_edge :: "simple_graph \<Rightarrow> node_id \<Rightarrow> node_id \<Rightarrow> bool" where
  "has_edge g u v \<longleftrightarrow> (u, v) \<in> set (sg_edges g) \<or> (v, u) \<in> set (sg_edges g)"

text \<open>\<open>Graph.number_of_edges(u, v)\<close> of a graph without parallel edges: 1 or 0.\<close>

definition number_of_edges :: "simple_graph \<Rightarrow> node_id \<Rightarrow> node_id \<Rightarrow> nat" where
  "number_of_edges g u v = (if has_edge g u v then 1 else 0)"

definition add_node :: "simple_graph \<Rightarrow> node_id \<Rightarrow> simple_graph" where
  "add_node g n = g\<lparr> sg_nodes := set_add n (sg_nodes g) \<rparr>"

definition add_edge :: "simple_graph \<Rightarrow> node_id \<times> node_id \<Rightarrow> simple_graph" where
  "add_edge g e =
     (let g' = add_node (add_node g (fst e)) (snd e)
      in if has_edge g' (fst e) (snd e) then g'
         else g'\<lparr> sg_edges := sg_edges g' @ [e] \<rparr>)"

definition temp_graph :: "node_id list \<Rightarrow> event list \<Rightarrow> simple_graph" where
  "temp_graph active edges =
     foldl add_edge (foldl add_node \<lparr> sg_nodes = [], sg_edges = [] \<rparr> active)
       (map (\<lambda>e. (ev_source e, ev_target e)) edges)"

definition neighbors :: "simple_graph \<Rightarrow> node_id \<Rightarrow> node_id list" where
  "neighbors g u =
     map (\<lambda>(a, b). if a = u then b else a) (filter (\<lambda>(a, b). a = u \<or> b = u) (sg_edges g))"

text \<open>\<open>Graph.degree\<close>: a self-loop counts twice.\<close>

definition degree :: "simple_graph \<Rightarrow> node_id \<Rightarrow> nat" where
  "degree g n = length (neighbors g n) + (if (n, n) \<in> set (sg_edges g) then 1 else 0)"

subsection \<open>Local ranking and highlight count\<close>

definition local_connection_strength :: "simple_graph \<Rightarrow> node_id list \<Rightarrow> (node_id \<times> nat) list" where
  "local_connection_strength temp_G core_nodes =
     map (\<lambda>node.
            (node, min_or_zero
               (map (\<lambda>core_node. if has_edge temp_G node core_node
                                  then number_of_edges temp_G node core_node else 0) core_nodes)))
         (filter (\<lambda>node. node \<notin> set core_nodes) (sg_nodes temp_G))"

text \<open>\<open>min(all_timestamps), max(all_timestamps)\<close>: a \<open>ValueError\<close> on a graph without events.\<close>

definition timestamp_range :: "graph \<Rightarrow> error + (rat \<times> rat)" where
  "timestamp_range G =
     (case map ev_timestamp (g_edges G) of
        [] \<Rightarrow> Inl ValueError
      | t # ts \<Rightarrow> Inr (foldl min t ts, foldl max t ts))"

definition highlight_count :: "rat \<Rightarrow> rat \<Rightarrow> rat \<Rightarrow> int" where
  "highlight_count timestamp min_timestamp max_timestamp =
     min (py_int (normalize_value timestamp min_timestamp max_timestamp 1 10)) 10"

definition spotlight :: "node_id list \<Rightarrow> node_id list \<Rightarrow> edge_data \<Rightarrow> bool" where
  "spotlight top_N_nodes core_nodes d \<longleftrightarrow>
     (source d \<in> set top_N_nodes \<and> target d \<in> set core_nodes) \<or>
     (target d \<in> set top_N_nodes \<and> source d \<in> set core_nodes)"

definition mark_edges :: "node_id list \<Rightarrow> node_id list \<Rightarrow> edge_dict_t \<Rightarrow> edge_dict_t" where
  "mark_edges top_N_nodes core_nodes ed =
     map (\<lambda>(k, d). (k, d\<lparr> edge_to_core := spotlight top_N_nodes core_nodes d \<rparr>)) ed"

section \<open>Shortest paths and the Metrics Engine\<close>

text \<open>
  The routines of this section are networkx library calls; they are modelled by what the library
  documents. \<open>all_shortest_paths\<close> grows all simple paths from the source breadth-first, one hop per
  round, and stops at the first round in which some path ends in the target: every edge costs one
  hop. A simple path visits at most every node once, so as many rounds as there are nodes suffice.
\<close>

definition extend_paths :: "simple_graph \<Rightarrow> node_id list list \<Rightarrow> node_id list list" where
  "extend_paths g ps =
     concat (map (\<lambda>p. map (\<lambda>w. p @ [w]) (filter (\<lambda>w. w \<notin> set p) (neighbors g (last p)))) ps)"

fun bfs_paths :: "simple_graph \<Rightarrow> node_id \<Rightarrow> nat \<Rightarrow> node_id list list \<Rightarrow> node_id list list" where
  "bfs_paths g t 0 ps = filter (\<lambda>p. last p = t) ps"
| "bfs_paths g t (Suc k) ps =
     (let hits = filter (\<lambda>p. last p = t) ps
      in if hits \<noteq> [] then hits
         else if ps = [] then []
         else bfs_paths g t k (extend_paths g ps))"

definition all_shortest_paths :: "simple_graph \<Rightarrow> node_id \<Rightarrow> node_id \<Rightarrow> node_id list list" where
  "all_shortest_paths g s t = bfs_paths g t (length (sg_nodes g)) [[s]]"

text \<open>\<open>nx.shortest_path(G, source, target)\<close>: one shortest path; \<open>NodeNotFound\<close> when an end point is
  not a node of the graph, \<open>NetworkXNoPath\<close> when the target cannot be reached. Which of several
  shortest paths the library returns is its own choice; the model takes the first one found.\<close>

definition shortest_path :: "simple_graph \<Rightarrow> node_id \<Rightarrow> node_id \<Rightarrow> error + node_id list" where
  "shortest_path g s t =
     (if s \<notin> set (sg_nodes g) then Inl (NodeNotFound s)
      else if t \<notin> set (sg_nodes g) then Inl (NodeNotFound t)
      else case all_shortest_paths g s t of
             [] \<Rightarrow> Inl NetworkXNoPath
           | p # ps \<Rightarrow> Inr p)"

text \<open>\<open>nx.degree_centrality\<close>: the degree times \<open>1 / (n - 1)\<close>; on a graph of at most one node the
  library returns 1 for every node.\<close>

definition degree_centrality :: "simple_graph \<Rightarrow> (node_id \<times> rat) list" where
  "degree_centrality g =
     (if length (sg_nodes g) \<le> 1 then map (\<lambda>n. (n, 1)) (sg_nodes g)
      else map (\<lambda>n. (n, of_nat (degree g n) * (1 / (of_nat (length (sg_nodes g)) - 1))))
             (sg_nodes g))"

text \<open>\<open>nx.betweenness_centrality\<close> with its defaults (normalised, unweighted, end points excluded):
  for every ordered pair \<open>(s, t)\<close> of distinct nodes other than \<open>v\<close>, the fraction of the shortest
  \<open>s\<close>-\<open>t\<close> paths that pass through \<open>v\<close>, summed and scaled by \<open>1 / ((n - 1) (n - 2))\<close> when \<open>n > 2\<close>.\<close>

definition pair_dependency :: "simple_graph \<Rightarrow> node_id \<Rightarrow> node_id \<Rightarrow> node_id \<Rightarrow> rat" where
  "pair_dependency g v s t =
     (let ps = all_shortest_paths g s t
      in if ps = [] then 0
         else of_nat (length (filter (\<lambda>p. v \<in> set p) ps)) / of_nat (length ps))"

definition betweenness_sum :: "simple_graph \<Rightarrow> node_id \<Rightarrow> rat" where
  "betweenness_sum g v =
     sum_list (concat (map (\<lambda>s. map (\<lambda>t. pair_dependency g v s t)
                                   (filter (\<lambda>t. t \<noteq> v \<and> t \<noteq> s) (sg_nodes g)))
                           (filter (\<lambda>s. s \<noteq> v) (sg_nodes g))))"

definition betweenness_centrality :: "simple_graph \<Rightarrow> (node_id \<times> rat) list" where
  "betweenness_centrality g =
     (let n = length (sg_nodes g);
          scale = (if n > 2 then 1 / ((of_nat n - 1) * (of_nat n - 2)) else 1)
      in map (\<lambda>v. (v, betweenness_sum g v * scale)) (sg_nodes g))"

text \<open>\<open>d.get(k, default)\<close> and \<open>max(d.values()) if d else 1\<close>.\<close>

definition dict_get :: "('k \<times> 'v) list \<Rightarrow> 'k \<Rightarrow> 'v \<Rightarrow> 'v" where
  "dict_get d k dflt = (case map_of d k of None \<Rightarrow> dflt | Some v \<Rightarrow> v)"

definition max_or_one :: "(node_id \<times> rat) list \<Rightarrow> rat" where
  "max_or_one d = (case map snd d of [] \<Rightarrow> 1 | x # xs \<Rightarrow> foldl max x xs)"

section \<open>Node elements\<close>

text \<open>The body of the loop over \<open>active_nodes\<close>; \<open>G.nodes[node]\<close> raises \<open>KeyError\<close> for an id that is
  not a node of \<open>G\<close>.\<close>

definition node_element ::
  "graph \<Rightarrow> simple_graph \<Rightarrow> node_id list \<Rightarrow> (node_id \<times> rat) list \<Rightarrow> (node_id \<times> rat) list \<Rightarrow> rat
     \<Rightarrow> node_id \<Rightarrow> error + element" where
  "node_element G temp_G core_nodes centr betw max_betweenness node =
     (case map_of (g_nodes G) node of
        None \<Rightarrow> Inl (KeyError node)
      | Some data \<Rightarrow>
          (let core = (node \<in> set core_nodes);
               connected = length (filter (\<lambda>core_node. has_edge temp_G node core_node) core_nodes);
               sz = (if core then 225 / 2
                     else 45 * (1 + (of_nat connected - 1) * (1 / 4)));
               node_color =
                 (if core then (0, 255, 0)
                  else if max_betweenness > 0
                       then (py_int (255 * dict_get betw node 0 / max_betweenness), 0, 255)
                       else (0, 0, 255))
           in Inr (Node
                \<lparr> nd_id = node,
                  label = (case username data of None \<Rightarrow> node | Some u \<Rightarrow> u),
                  node_size = sz,
                  fid = node,
                  display_name = (case username data of None \<Rightarrow> ''N/A'' | Some u \<Rightarrow> u),
                  nd_follower_count = (case follower_count data of None \<Rightarrow> 0 | Some c \<Rightarrow> c),
                  nd_following_count = (case following_count data of None \<Rightarrow> 0 | Some c \<Rightarrow> c),
                  is_core = core,
                  centrality = (if \<not> core then Some (dict_get centr node 0) else None),
                  betweenness = (if \<not> core then Some (dict_get betw node 0) else None),
                  color = node_color,
                  connected_core_nodes = connected,
                  node_to_core = None \<rparr>)))"

text \<open>A loop that appends one result per item and stops at the first exception.\<close>

fun for_each :: "('a \<Rightarrow> error + 'b) \<Rightarrow> 'a list \<Rightarrow> error + 'b list" where
  "for_each f [] = Inr []"
| "for_each f (x # xs) =
     (case f x of
        Inl e \<Rightarrow> Inl e
      | Inr y \<Rightarrow> (case for_each f xs of Inl e \<Rightarrow> Inl e | Inr ys \<Rightarrow> Inr (y # ys)))"

section \<open>Highlighter\<close>

text \<open>The loop over the core nodes: only \<open>NetworkXNoPath\<close> is caught. The two accumulators are the
  sets \<open>highlighted_nodes\<close> and \<open>highlighted_edges\<close>.\<close>

fun highlight_paths ::
  "simple_graph \<Rightarrow> node_id \<Rightarrow> node_id list \<Rightarrow> node_id list \<times> (node_id \<times> node_id) list
     \<Rightarrow> error + (node_id list \<times> (node_id \<times> node_id) list)" where
  "highlight_paths temp_G selected_node_id [] acc = Inr acc"
| "highlight_paths temp_G selected_node_id (core_node # rest) (hn, he) =
     (case shortest_path temp_G selected_node_id core_node of
        Inl NetworkXNoPath \<Rightarrow> highlight_paths temp_G selected_node_id rest (hn, he)
      | Inl e \<Rightarrow> Inl e
      | Inr path \<Rightarrow>
          highlight_paths temp_G selected_node_id rest
            (foldl (\<lambda>s x. set_add x s) hn path,
             foldl (\<lambda>s x. set_add x s) he (zip (butlast path) (tl path))))"

definition apply_highlight ::
  "node_id list \<Rightarrow> (node_id \<times> node_id) list \<Rightarrow> element \<Rightarrow> element" where
  "apply_highlight highlighted_nodes highlighted_edges el =
     (case el of
        Edge d \<Rightarrow>
          Edge (d\<lparr> edge_to_core :=
                    (source d, target d) \<in> set highlighted_edges \<or>
                    (target d, source d) \<in> set highlighted_edges \<rparr>)
      | Node d \<Rightarrow> Node (d\<lparr> node_to_core := Some (nd_id d \<in> set highlighted_nodes) \<rparr>))"

definition is_core_element :: "element \<Rightarrow> bool" where
  "is_core_element el = (case el of Node d \<Rightarrow> is_core d | Edge d \<Rightarrow> False)"

text \<open>The block under \<open>if tapNodeData:\<close>. \<open>tapNodeData\<close> is \<open>None\<close> when no node is selected,
  otherwise the id of the selected node.\<close>

definition highlight ::
  "simple_graph \<Rightarrow> node_id list \<Rightarrow> node_id option \<Rightarrow> element list \<Rightarrow> error + element list" where
  "highlight temp_G core_nodes tapNodeData cyto_elements =
     (case tapNodeData of
        None \<Rightarrow> Inr cyto_elements
      | Some selected_node_id \<Rightarrow>
          (case highlight_paths temp_G selected_node_id core_nodes ([], []) of
             Inl e \<Rightarrow> Inl e
           | Inr (hn, he) \<Rightarrow> Inr (map (apply_highlight hn he) cyto_elements)))"

section \<open>The snapshot\<close>

definition get_elements ::
  "graph \<Rightarrow> rat \<Rightarrow> node_id list \<Rightarrow> node_id option \<Rightarrow> error + element list" where
  "get_elements G timestamp core_nodes tapNodeData =
     (let st = collect_edges G timestamp core_nodes;
          ed = normalize_edges (edge_dict st);
          temp_G = temp_graph (active_nodes st) (edges_up_to_timestamp st);
          connection_strength = local_connection_strength temp_G core_nodes;
          sorted_nodes = sorted_desc connection_strength
      in (case timestamp_range G of
            Inl e \<Rightarrow> Inl e
          | Inr (min_timestamp, max_timestamp) \<Rightarrow>
              (let N = highlight_count timestamp min_timestamp max_timestamp;
                   top_N_nodes = py_take N sorted_nodes;
                   ed' = mark_edges top_N_nodes core_nodes ed;
                   centr = degree_centrality temp_G;
                   betw = betweenness_centrality temp_G;
                   max_betweenness = max_or_one betw
               in (case for_each (node_element G temp_G core_nodes centr betw max_betweenness)
                          (active_nodes st) of
                     Inl e \<Rightarrow> Inl e
                   | Inr node_els \<Rightarrow>
                       (let cyto_elements =
                              node_els @ (if timestamp > min_timestamp
                                          then map (\<lambda>(k, d). Edge d) ed' else [])
                        in (case highlight temp_G core_nodes tapNodeData cyto_elements of
                              Inl e \<Rightarrow> Inl e
                            | Inr els \<Rightarrow>
                                Inr (if timestamp \<le> min_timestamp
                                     then filter is_core_element els else els)))))))"

section \<open>The request handlers\<close>

text \<open>\<open>s.split(',')\<close> and \<open>s.strip()\<close>. A string is a list of code points below 256; the white space
  of \<open>str.strip\<close> in that range is 9 to 13, 28 to 32, 133 and 160.\<close>

fun split_on :: "char \<Rightarrow> string \<Rightarrow> string list" where
  "split_on c [] = [[]]"
| "split_on c (x # xs) =
     (if x = c then [] # split_on c xs
      else (case split_on c xs of [] \<Rightarrow> [[x]] | w # ws \<Rightarrow> (x # w) # ws))"

definition is_space :: "char \<Rightarrow> bool" where
  "is_space c \<longleftrightarrow>
     (let n = (of_char c :: nat) in (9 \<le> n \<and> n \<le> 13) \<or> (28 \<le> n \<and> n \<le> 32) \<or> n = 133 \<or> n = 160)"

definition strip :: "string \<Rightarrow> string" where
  "strip s = rev (dropWhile is_space (rev (dropWhile is_space s)))"

text \<open>\<open>[uid.strip() for uid in user_ids_input.split(',') if uid.strip()]\<close>\<close>

definition core_ids :: "string \<Rightarrow> node_id list" where
  "core_ids user_ids_input =
     map strip (filter (\<lambda>uid. strip uid \<noteq> []) (split_on (CHR '','') user_ids_input))"

text \<open>A callback output: \<open>no_update\<close> leaves the component as it is.\<close>

datatype 'a dash_output = no_update | Out 'a

text \<open>What \<open>build_graph\<close> puts into the store: the filtered graph in node-link form, taken to survive
  the round trip through \<open>node_link_data\<close> and \<open>node_link_graph\<close> unchanged, and the two bounds.\<close>

record graph_data =
  gd_graph :: graph
  gd_min_timestamp :: rat
  gd_max_timestamp :: rat

text \<open>
  Modelled from the spec: \<open>DataFetcher.get_all_users_data\<close> followed by
  \<open>GraphBuilder.build_graph_from_data\<close> (modules \<open>src.data_ingestion.fetch_data\<close> and
  \<open>src.graph_processing.build_graph\<close>, which are not among the sources) is the Source Provider's
  "full-graph construction operation returning Accounts and InteractionEvents for a requested set of
  core ids". It is the parameter \<open>fetch\<close>, which may also fail. \<open>build_graph\<close> catches every
  exception raised after its first check.
\<close>

definition build_graph ::
  "(node_id list \<Rightarrow> error + graph) \<Rightarrow> int option \<Rightarrow> string option
     \<Rightarrow> graph_data dash_output \<times> string dash_output" where
  "build_graph fetch n_clicks user_ids_input =
     (if n_clicks = None \<or> user_ids_input = None \<or> user_ids_input = Some [] then (no_update, no_update)
      else
        (let core_nodes = core_ids (the user_ids_input)
         in (case fetch core_nodes of
               Inl e \<Rightarrow> (no_update, Out [])
             | Inr G \<Rightarrow>
                 (let filtered_G = filter_graph G core_nodes
                  in (case timestamp_range filtered_G of
                        Inl e \<Rightarrow> (no_update, Out [])
                      | Inr (min_timestamp, max_timestamp) \<Rightarrow>
                          (Out \<lparr> gd_graph = filtered_G, gd_min_timestamp = min_timestamp,
                                 gd_max_timestamp = max_timestamp \<rparr>, Out []))))))"

text \<open>\<open>user_ids_input.split\<close> raises \<open>AttributeError\<close> when the input box holds no value.\<close>

definition update_elements ::
  "rat \<Rightarrow> node_id option \<Rightarrow> graph_data option \<Rightarrow> string option \<Rightarrow> error + element list" where
  "update_elements selected_timestamp tapNodeData graph_data user_ids_input =
     (case graph_data of
        None \<Rightarrow> Inr []
      | Some gd \<Rightarrow>
          (case user_ids_input of
             None \<Rightarrow> Inl AttributeError
           | Some inp \<Rightarrow>
               (let core_nodes = core_ids inp;
                    min_timestamp = gd_min_timestamp gd;
                    max_timestamp = gd_max_timestamp gd;
                    actual_timestamp =
                      min_timestamp + (selected_timestamp / 100) * (max_timestamp - min_timestamp)
                in get_elements (gd_graph gd) actual_timestamp core_nodes tapNodeData)))"

section \<open>Notions used to state the properties\<close>

text \<open>The number of events between \<open>a\<close> and \<open>b\<close>, in both directions, among \<open>es\<close> and not later
  than the cutoff.\<close>

definition pair_count :: "event list \<Rightarrow> rat \<Rightarrow> node_id \<Rightarrow> node_id \<Rightarrow> nat" where
  "pair_count es cutoff a b =
     length (filter (\<lambda>e. ev_timestamp e \<le> cutoff \<and>
                          ((ev_source e = a \<and> ev_target e = b) \<or> (ev_source e = b \<and> ev_target e = a))) es)"

text \<open>The same count over all events of a graph, whatever their time.\<close>

definition event_count :: "graph \<Rightarrow> node_id \<Rightarrow> node_id \<Rightarrow> nat" where
  "event_count G a b =
     length (filter (\<lambda>e. (ev_source e = a \<and> ev_target e = b) \<or> (ev_source e = b \<and> ev_target e = a))
               (g_edges G))"

text \<open>The node and edge records of a snapshot, in the order of the element list.\<close>

definition node_elements :: "element list \<Rightarrow> node_data list" where
  "node_elements els = concat (map (\<lambda>el. case el of Node d \<Rightarrow> [d] | Edge d \<Rightarrow> []) els)"

definition edge_elements :: "element list \<Rightarrow> edge_data list" where
  "edge_elements els = concat (map (\<lambda>el. case el of Node d \<Rightarrow> [] | Edge d \<Rightarrow> [d]) els)"

definition snapshot_nodes :: "element list \<Rightarrow> node_id set" where
  "snapshot_nodes els = nd_id ` set (node_elements els)"

text \<open>The temporary graph and the local ranking of a snapshot.\<close>

definition snapshot_graph :: "graph \<Rightarrow> rat \<Rightarrow> node_id list \<Rightarrow> simple_graph" where
  "snapshot_graph G cutoff core_nodes =
     (let st = collect_edges G cutoff core_nodes
      in temp_graph (active_nodes st) (edges_up_to_timestamp st))"

definition local_ranking :: "graph \<Rightarrow> rat \<Rightarrow> node_id list \<Rightarrow> (node_id \<times> nat) list" where
  "local_ranking G cutoff core_nodes =
     local_connection_strength (snapshot_graph G cutoff core_nodes) core_nodes"

text \<open>The shortest paths that the highlighter finds from the focal node, one for each core node
  that can be reached, with the nodes and the directed hops on them.\<close>

definition found_paths :: "simple_graph \<Rightarrow> node_id \<Rightarrow> node_id list \<Rightarrow> node_id list list" where
  "found_paths temp_G focal core_nodes =
     concat (map (\<lambda>c. case shortest_path temp_G focal c of Inr p \<Rightarrow> [p] | Inl e \<Rightarrow> []) core_nodes)"

definition path_nodes :: "node_id list list \<Rightarrow> node_id set" where
  "path_nodes ps = \<Union> (set ` set ps)"

definition path_edges :: "node_id list list \<Rightarrow> (node_id \<times> node_id) set" where
  "path_edges ps = \<Union> ((\<lambda>p. set (zip (butlast p) (tl p))) ` set ps)"

text \<open>A walk of the graph that starts in \<open>s\<close>.\<close>

definition walk_from :: "simple_graph \<Rightarrow> node_id \<Rightarrow> node_id list \<Rightarrow> bool" where
  "walk_from g s p \<longleftrightarrow>
     p \<noteq> [] \<and> hd p = s \<and> list_all (\<lambda>(u, v). has_edge g u v) (zip (butlast p) (tl p))"

text \<open>The edge list of a networkx \<open>Graph\<close> holds every undirected edge once.\<close>

definition simple_edges :: "(node_id \<times> node_id) list \<Rightarrow> bool" where
  "simple_edges es \<longleftrightarrow> distinct es \<and> (\<forall>(u, v) \<in> set es. u \<noteq> v \<longrightarrow> (v, u) \<notin> set es)"

text \<open>Degree centrality in the words of the specification: the degree of a node in the undirected
  simple projection of the snapshot, that is the number of aggregated edges at the node, divided by
  \<open>n - 1\<close>.\<close>

definition projection_degree :: "element list \<Rightarrow> node_id \<Rightarrow> nat" where
  "projection_degree els v =
     length (filter (\<lambda>d. source d = v \<or> target d = v) (edge_elements els))"

definition spec_degree_centrality :: "element list \<Rightarrow> node_id \<Rightarrow> rat" where
  "spec_degree_centrality els v =
     of_nat (projection_degree els v) / (of_nat (length (node_elements els)) - 1)"

text \<open>The graph with every event twice.\<close>

definition doubled :: "graph \<Rightarrow> graph" where
  "doubled G = G\<lparr> g_edges := g_edges G @ g_edges G \<rparr>"

text \<open>The aggregated edges after the thickness pass and rank selection, and the node loop.\<close>

definition top_nodes :: "graph \<Rightarrow> rat \<Rightarrow> node_id list \<Rightarrow> rat \<Rightarrow> rat \<Rightarrow> node_id list" where
  "top_nodes G cutoff core_nodes min_timestamp max_timestamp =
     py_take (highlight_count cutoff min_timestamp max_timestamp)
       (sorted_desc (local_ranking G cutoff core_nodes))"

definition ranked_edges :: "graph \<Rightarrow> rat \<Rightarrow> node_id list \<Rightarrow> rat \<Rightarrow> rat \<Rightarrow> edge_dict_t" where
  "ranked_edges G cutoff core_nodes min_timestamp max_timestamp =
     mark_edges (top_nodes G cutoff core_nodes min_timestamp max_timestamp) core_nodes
       (normalize_edges (edge_dict (collect_edges G cutoff core_nodes)))"

definition snapshot_node_elements :: "graph \<Rightarrow> rat \<Rightarrow> node_id list \<Rightarrow> error + element list" where
  "snapshot_node_elements G cutoff core_nodes =
     (let temp_G = snapshot_graph G cutoff core_nodes
      in for_each (node_element G temp_G core_nodes (degree_centrality temp_G)
                     (betweenness_centrality temp_G) (max_or_one (betweenness_centrality temp_G)))
           (active_nodes (collect_edges G cutoff core_nodes)))"

text \<open>What the loop over the events maintains for the dictionary of aggregated edges: one entry per
  key, every key the sorted pair of two distinct end points, every weight the number of qualifying
  events between them, and a key for every qualifying event that is not a self-loop.\<close>

definition dict_inv :: "event list \<Rightarrow> rat \<Rightarrow> edge_dict_t \<Rightarrow> bool" where
  "dict_inv es ts ed \<longleftrightarrow>
     distinct (map fst ed) \<and>
     (\<forall>(k, d) \<in> set ed. k = sorted_pair (source d) (target d) \<and> source d \<noteq> target d \<and>
                          weight d = pair_count es ts (source d) (target d)) \<and>
     fst ` set ed = {sorted_pair (ev_source e) (ev_target e) | e.
                       e \<in> set es \<and> ev_timestamp e \<le> ts \<and> ev_source e \<noteq> ev_target e}"

text \<open>The highlight count in the words of the specification:
  \<open>N = clamp(floor(linearRescale(cutoff, globalMin, globalMax, 1, 10)), 0, 10)\<close>, where
  \<open>linearRescale\<close> is the Normalizer, \<open>normalize_value\<close>.\<close>

definition clamp :: "int \<Rightarrow> int \<Rightarrow> int \<Rightarrow> int" where
  "clamp x lo hi = max lo (min hi x)"

definition spec_highlight_count :: "rat \<Rightarrow> rat \<Rightarrow> rat \<Rightarrow> int" where
  "spec_highlight_count cutoff globalMin globalMax =
     clamp \<lfloor>normalize_value cutoff globalMin globalMax 1 10\<rfloor> 0 10"

section \<open>Example graphs\<close>

definition account :: node_attrs where
  "account = \<lparr> username = None, follower_count = None, following_count = None \<rparr>"

definition ev :: "node_id \<Rightarrow> node_id \<Rightarrow> rat \<Rightarrow> event" where
  "ev s t ts = \<lparr> ev_source = s, ev_target = t, ev_timestamp = ts, ev_edge_type = Some ''X'' \<rparr>"

text \<open>The example of the specification: core \<open>A\<close>, events \<open>(B,A,1)\<close>, \<open>(C,A,2)\<close>, \<open>(C,B,3)\<close>,
  \<open>(D,C,4)\<close>.\<close>

definition G_example :: graph where
  "G_example =
     \<lparr> g_nodes = [(''A'', account), (''B'', account), (''C'', account), (''D'', account)],
       g_edges = [ev ''B'' ''A'' 1, ev ''C'' ''A'' 2, ev ''C'' ''B'' 3, ev ''D'' ''C'' 4] \<rparr>"

text \<open>Node \<open>X\<close> with three events to \<open>A\<close>; \<open>B\<close> has no event with \<open>X\<close>.\<close>

definition G_strength :: graph where
  "G_strength =
     \<lparr> g_nodes = [(''A'', account), (''B'', account), (''X'', account)],
       g_edges = [ev ''X'' ''A'' 1, ev ''X'' ''A'' 2, ev ''A'' ''X'' 3, ev ''B'' ''A'' 4] \<rparr>"

text \<open>The snapshot of the example at cutoff 4 without a focal node, as the program returns it.\<close>

definition node_example ::
  "node_id \<Rightarrow> rat \<Rightarrow> bool \<Rightarrow> rat option \<Rightarrow> rat option \<Rightarrow> int \<times> int \<times> int \<Rightarrow> nat \<Rightarrow> element" where
  "node_example n sz core c b col k =
     Node \<lparr> nd_id = n, label = n, node_size = sz, fid = n, display_name = ''N/A'',
            nd_follower_count = 0, nd_following_count = 0, is_core = core, centrality = c,
            betweenness = b, color = col, connected_core_nodes = k, node_to_core = None \<rparr>"

definition edge_example :: "node_id \<Rightarrow> node_id \<Rightarrow> bool \<Rightarrow> element" where
  "edge_example s t flag =
     Edge \<lparr> source = s, target = t, weight = 1, edge_types = [(''X'', 1)], edge_to_core = flag,
            interactions = [(s, [(''X'', 1)]), (t, [])], normalized_weight = Some (3 / 2) \<rparr>"

definition snap_example :: "element list" where
  "snap_example =
     [node_example ''A'' (225 / 2) True None None (0, 255, 0) 0,
      node_example ''B'' 45 False (Some (2 / 3)) (Some 0) (0, 0, 255) 1,
      node_example ''C'' 45 False (Some 1) (Some (2 / 3)) (255, 0, 255) 1,
      node_example ''D'' (135 / 4) False (Some (1 / 3)) (Some 0) (0, 0, 255) 0,
      edge_example ''B'' ''A'' True,
      edge_example ''C'' ''A'' True,
      edge_example ''C'' ''B'' False,
      edge_example ''D'' ''C'' False]"

text \<open>Two accounts with events in both directions and a self-loop, and the snapshot at cutoff 3
  with core \<open>A\<close>.\<close>

definition G_pair :: graph where
  "G_pair =
     \<lparr> g_nodes = [(''A'', account), (''B'', account)],
       g_edges = [ev ''A'' ''B'' 1, ev ''B'' ''A'' 2, ev ''B'' ''B'' 2, ev ''A'' ''B'' 3] \<rparr>"

definition snap_pair :: "element list" where
  "snap_pair =
     [node_example ''A'' (225 / 2) True None None (0, 255, 0) 0,
      node_example ''B'' 45 False (Some 3) (Some 0) (0, 0, 255) 1,
      Edge \<lparr> source = ''A'', target = ''B'', weight = 3, edge_types = [(''X'', 3)],
             edge_to_core = True,
             interactions = [(''A'', [(''X'', 2)]), (''B'', [(''X'', 1)])],
             normalized_weight = Some 15 \<rparr>]"

text \<open>Two components: \<open>D\<close> and \<open>C\<close> are not connected to the core node \<open>A\<close>.\<close>

definition G_disc :: graph where
  "G_disc =
     \<lparr> g_nodes = [(''A'', account), (''B'', account), (''C'', account), (''D'', account)],
       g_edges = [ev ''B'' ''A'' 1, ev ''D'' ''C'' 2] \<rparr>"

text \<open>The snapshot of \<open>G_pair\<close> at cutoff 2 with core \<open>A\<close>.\<close>

definition snap_pair_early :: "element list" where
  "snap_pair_early =
     [node_example ''A'' (225 / 2) True None None (0, 255, 0) 0,
      node_example ''B'' 45 False (Some 3) (Some 0) (0, 0, 255) 1,
      Edge \<lparr> source = ''A'', target = ''B'', weight = 2, edge_types = [(''X'', 2)],
             edge_to_core = True,
             interactions = [(''A'', [(''X'', 1)]), (''B'', [(''X'', 1)])],
             normalized_weight = Some 15 \<rparr>]"

text \<open>A chain \<open>E - B - C - A - D\<close> that is complete early, with one late event: at cutoff 2 the
  highlight count is 1.\<close>

definition G_rank :: graph where
  "G_rank =
     \<lparr> g_nodes = [(''A'', account), (''B'', account), (''C'', account), (''D'', account),
                  (''E'', account)],
       g_edges = [ev ''B'' ''C'' 1, ev ''C'' ''A'' 2, ev ''D'' ''A'' 2, ev ''E'' ''B'' 2,
                  ev ''A'' ''B'' 100] \<rparr>"

definition snap_rank :: "element list" where
  "snap_rank =
     [node_example ''A'' (225 / 2) True None None (0, 255, 0) 0,
      node_example ''B'' (135 / 4) False (Some (1 / 2)) (Some (1 / 2)) (191, 0, 255) 0,
      node_example ''C'' 45 False (Some (1 / 2)) (Some (2 / 3)) (255, 0, 255) 1,
      node_example ''D'' 45 False (Some (1 / 4)) (Some 0) (0, 0, 255) 1,
      node_example ''E'' (135 / 4) False (Some (1 / 4)) (Some 0) (0, 0, 255) 0,
      edge_example ''B'' ''C'' False,
      edge_example ''C'' ''A'' True,
      edge_example ''D'' ''A'' False,
      edge_example ''E'' ''B'' False]"

text \<open>The snapshot of the example at cutoff 4 with focal node \<open>D\<close>.\<close>

definition on_path :: "bool \<Rightarrow> element \<Rightarrow> element" where
  "on_path b el = (case el of Node d \<Rightarrow> Node (d\<lparr> node_to_core := Some b \<rparr>) | Edge d \<Rightarrow> Edge d)"

definition snap_example_focal :: "element list" where
  "snap_example_focal =
     [on_path True (node_example ''A'' (225 / 2) True None None (0, 255, 0) 0),
      on_path False (node_example ''B'' 45 False (Some (2 / 3)) (Some 0) (0, 0, 255) 1),
      on_path True (node_example ''C'' 45 False (Some 1) (Some (2 / 3)) (255, 0, 255) 1),
      on_path True (node_example ''D'' (135 / 4) False (Some (1 / 3)) (Some 0) (0, 0, 255) 0),
      edge_example ''B'' ''A'' False,
      edge_example ''C'' ''A'' True,
      edge_example ''C'' ''B'' False,
      edge_example ''D'' ''C'' True]"

section \<open>Python containers\<close>

lemma set_set_add: "set (set_add x s) = insert x (set s)"
  by (auto simp: set_add_def)

lemma distinct_set_add: "distinct s \<Longrightarrow> distinct (set_add x s)"
  by (simp add: set_add_def)

lemma set_foldl_set_add: "set (foldl (\<lambda>s x. set_add x s) acc xs) = set acc \<union> set xs"
  by (induction xs arbitrary: acc) (auto simp: set_set_add)

lemma distinct_foldl_set_add:
  "distinct acc \<Longrightarrow> distinct (foldl (\<lambda>s x. set_add x s) acc xs)"
  by (induction xs arbitrary: acc) (auto simp: distinct_set_add)

lemma set_py_set: "set (py_set xs) = set xs"
  by (simp add: py_set_def set_foldl_set_add)

lemma distinct_py_set: "distinct (py_set xs)"
  by (simp add: py_set_def distinct_foldl_set_add)

lemma sorted_pair_eq_iff:
  "sorted_pair a b = sorted_pair c d \<longleftrightarrow> (a = c \<and> b = d) \<or> (a = d \<and> b = c)"
  by (auto simp: sorted_pair_def)

lemma sorted_pair_ordered: "a \<noteq> b \<Longrightarrow> fst (sorted_pair a b) < snd (sorted_pair a b)"
  by (auto simp: sorted_pair_def)

lemma foldl_min_eq_Min: "foldl min (y::nat) ys = Min (set (y # ys))"
proof (induction ys arbitrary: y)
  case Nil
  then show ?case by simp
next
  case (Cons z zs)
  have "Min (set (y # z # zs)) = Min (insert (min y z) (set zs))"
    by (cases "zs = []") (auto simp: min.assoc min.commute min.left_commute)
  then show ?case using Cons[of "min y z"] by simp
qed

lemma min_or_zero_Min: "xs \<noteq> [] \<Longrightarrow> min_or_zero xs = Min (set xs)"
  by (cases xs) (simp_all add: min_or_zero_def foldl_min_eq_Min del: set_simps)

lemma min_or_zero_zero: "0 \<in> set xs \<Longrightarrow> min_or_zero xs = 0"
proof -
  assume a: "0 \<in> set xs"
  then have ne: "xs \<noteq> []" by auto
  have "Min (set xs) \<le> 0" using a by (intro Min_le) auto
  then show ?thesis using min_or_zero_Min[OF ne] by simp
qed

section \<open>The loop over the events\<close>

lemma collect_up_to:
  "edges_up_to_timestamp (foldl (collect_step ts) st es) =
     edges_up_to_timestamp st @ filter (\<lambda>e. ev_timestamp e \<le> ts) es"
  by (induction es arbitrary: st) (auto simp: collect_step_def Let_def)

lemma collect_active_set:
  "set (active_nodes (foldl (collect_step ts) st es)) =
     set (active_nodes st) \<union>
     (\<Union>e \<in> {e \<in> set es. ev_timestamp e \<le> ts}. {ev_source e, ev_target e})"
  by (induction es arbitrary: st) (auto simp: collect_step_def Let_def set_set_add)

lemma collect_active_distinct:
  "distinct (active_nodes st) \<Longrightarrow> distinct (active_nodes (foldl (collect_step ts) st es))"
  by (induction es arbitrary: st) (auto simp: collect_step_def Let_def distinct_set_add)

lemma pair_count_snoc:
  "pair_count (es @ [e]) ts a b =
     pair_count es ts a b +
     (if ev_timestamp e \<le> ts \<and> sorted_pair (ev_source e) (ev_target e) = sorted_pair a b then 1 else 0)"
  by (auto simp: pair_count_def sorted_pair_eq_iff)

lemma pair_count_zero_iff:
  "pair_count es ts a b = 0 \<longleftrightarrow>
     (\<forall>e \<in> set es. \<not> (ev_timestamp e \<le> ts \<and> sorted_pair (ev_source e) (ev_target e) = sorted_pair a b))"
  by (auto simp: pair_count_def sorted_pair_eq_iff filter_empty_conv)

lemma map_fst_dict_modify: "map fst (dict_modify k f d) = map fst d"
  by (induction d) (auto simp: dict_modify_def)

lemma set_dict_modify:
  "set (dict_modify k f d) = (\<lambda>(k', v). if k' = k then (k', f v) else (k', v)) ` set d"
  by (simp add: dict_modify_def)

lemma bump_edge_fields:
  "source (bump_edge s t d) = source d" "target (bump_edge s t d) = target d"
  "weight (bump_edge s t d) = weight d + 1"
  by (simp_all add: bump_edge_def)

lemma new_edge_fields:
  "source (new_edge s t et) = s" "target (new_edge s t et) = t" "weight (new_edge s t et) = 1"
  by (simp_all add: new_edge_def)

lemma dict_inv_step:
  assumes inv: "dict_inv es ts (edge_dict st)"
  shows "dict_inv (es @ [e]) ts (edge_dict (collect_step ts st e))"
proof -
  let ?ed = "edge_dict st"
  let ?key = "sorted_pair (ev_source e) (ev_target e)"
  from inv have dist: "distinct (map fst ?ed)"
    and ent: "\<And>k d. (k, d) \<in> set ?ed \<Longrightarrow> k = sorted_pair (source d) (target d) \<and> source d \<noteq> target d \<and>
                          weight d = pair_count es ts (source d) (target d)"
    and keys: "fst ` set ?ed = {sorted_pair (ev_source e) (ev_target e) | e.
                       e \<in> set es \<and> ev_timestamp e \<le> ts \<and> ev_source e \<noteq> ev_target e}"
    by (auto simp: dict_inv_def)
  show ?thesis
  proof (cases "ev_timestamp e \<le> ts")
    case False
    then have "collect_step ts st e = st" by (simp add: collect_step_def)
    moreover have "\<And>a b. pair_count (es @ [e]) ts a b = pair_count es ts a b"
      using False by (simp add: pair_count_snoc)
    ultimately show ?thesis using inv False by (auto simp: dict_inv_def)
  next
    case q: True
    show ?thesis
    proof (cases "ev_source e = ev_target e")
      case True
      then have ed: "edge_dict (collect_step ts st e) = ?ed"
        using q by (simp add: collect_step_def Let_def)
      have cnt: "\<And>a b. a \<noteq> b \<Longrightarrow> pair_count (es @ [e]) ts a b = pair_count es ts a b"
        using True by (auto simp: pair_count_snoc sorted_pair_eq_iff)
      show ?thesis unfolding dict_inv_def ed
      proof (intro conjI)
        show "distinct (map fst ?ed)" by (rule dist)
        show "\<forall>(k, d)\<in>set ?ed. k = sorted_pair (source d) (target d) \<and> source d \<noteq> target d \<and>
                weight d = pair_count (es @ [e]) ts (source d) (target d)"
          using ent cnt by fastforce
        show "fst ` set ?ed = {sorted_pair (ev_source e') (ev_target e') | e'.
                       e' \<in> set (es @ [e]) \<and> ev_timestamp e' \<le> ts \<and> ev_source e' \<noteq> ev_target e'}"
          using keys True by auto
      qed
    next
      case ne: False
      define et where "et = (case ev_edge_type e of None \<Rightarrow> ''Unknown'' | Some t \<Rightarrow> t)"
      show ?thesis
      proof (cases "?key \<in> fst ` set ?ed")
        case new: False
        have ed: "edge_dict (collect_step ts st e) = ?ed @ [(?key, new_edge (ev_source e) (ev_target e) et)]"
          using q ne new by (simp add: collect_step_def Let_def et_def)
        have zero: "pair_count es ts (ev_source e) (ev_target e) = 0"
        proof -
          { fix e' assume e': "e' \<in> set es" "ev_timestamp e' \<le> ts"
              "sorted_pair (ev_source e') (ev_target e') = ?key"
            then have "ev_source e' \<noteq> ev_target e'" using ne by (auto simp: sorted_pair_eq_iff)
            with e' have "?key \<in> fst ` set ?ed" unfolding keys
              by (intro CollectI exI[of _ e']) auto
            with new have False by simp }
          then show ?thesis unfolding pair_count_zero_iff by blast
        qed
        have old: "\<And>k d. (k, d) \<in> set ?ed \<Longrightarrow>
                     pair_count (es @ [e]) ts (source d) (target d) = pair_count es ts (source d) (target d)"
        proof -
          fix k d assume kd: "(k, d) \<in> set ?ed"
          then have "k = sorted_pair (source d) (target d)" using ent by blast
          moreover have "k \<in> fst ` set ?ed" using kd by force
          ultimately have "?key \<noteq> sorted_pair (source d) (target d)" using new by metis
          then show "pair_count (es @ [e]) ts (source d) (target d) = pair_count es ts (source d) (target d)"
            by (simp add: pair_count_snoc)
        qed
        show ?thesis unfolding dict_inv_def ed
        proof (intro conjI)
          show "distinct (map fst (?ed @ [(?key, new_edge (ev_source e) (ev_target e) et)]))"
            using dist new by auto
          show "\<forall>(k, d)\<in>set (?ed @ [(?key, new_edge (ev_source e) (ev_target e) et)]).
                  k = sorted_pair (source d) (target d) \<and> source d \<noteq> target d \<and>
                  weight d = pair_count (es @ [e]) ts (source d) (target d)"
          proof (clarify)
            fix a b d
            assume "((a, b), d) \<in> set (?ed @ [(?key, new_edge (ev_source e) (ev_target e) et)])"
            then consider (o) "((a, b), d) \<in> set ?ed"
              | (n) "(a, b) = ?key" "d = new_edge (ev_source e) (ev_target e) et" by auto
            then show "(a, b) = sorted_pair (source d) (target d) \<and> source d \<noteq> target d \<and>
                  weight d = pair_count (es @ [e]) ts (source d) (target d)"
            proof cases
              case o
              then show ?thesis using ent[OF o] old[OF o] by simp
            next
              case n
              then show ?thesis using ne q zero by (simp add: new_edge_fields pair_count_snoc)
            qed
          qed
          show "fst ` set (?ed @ [(?key, new_edge (ev_source e) (ev_target e) et)]) =
                  {sorted_pair (ev_source e') (ev_target e') | e'.
                       e' \<in> set (es @ [e]) \<and> ev_timestamp e' \<le> ts \<and> ev_source e' \<noteq> ev_target e'}"
            using keys q ne by auto
        qed
      next
        case old: True
        have ed: "edge_dict (collect_step ts st e) = dict_modify ?key (bump_edge (ev_source e) et) ?ed"
          using q ne old by (simp add: collect_step_def Let_def et_def)
        show ?thesis unfolding dict_inv_def ed
        proof (intro conjI)
          show "distinct (map fst (dict_modify ?key (bump_edge (ev_source e) et) ?ed))"
            using dist by (simp add: map_fst_dict_modify)
          show "\<forall>(k, d)\<in>set (dict_modify ?key (bump_edge (ev_source e) et) ?ed).
                  k = sorted_pair (source d) (target d) \<and> source d \<noteq> target d \<and>
                  weight d = pair_count (es @ [e]) ts (source d) (target d)"
          proof (clarify)
            fix a b d
            assume "((a, b), d) \<in> set (dict_modify ?key (bump_edge (ev_source e) et) ?ed)"
            then obtain d0 where d0: "((a, b), d0) \<in> set ?ed"
              and d: "d = (if (a, b) = ?key then bump_edge (ev_source e) et d0 else d0)"
              by (auto simp: set_dict_modify split: if_splits)
            have k: "(a, b) = sorted_pair (source d0) (target d0)" using ent[OF d0] by simp
            show "(a, b) = sorted_pair (source d) (target d) \<and> source d \<noteq> target d \<and>
                  weight d = pair_count (es @ [e]) ts (source d) (target d)"
            proof (cases "(a, b) = ?key")
              case True
              then show ?thesis using ent[OF d0] d q k
                by (simp add: bump_edge_fields pair_count_snoc)
            next
              case False
              then show ?thesis using ent[OF d0] d k
                by (simp add: pair_count_snoc)
            qed
          qed
          have "fst ` set (dict_modify ?key (bump_edge (ev_source e) et) ?ed) = fst ` set ?ed"
            using map_fst_dict_modify[of ?key "bump_edge (ev_source e) et" ?ed]
            by (metis set_map)
          then show "fst ` set (dict_modify ?key (bump_edge (ev_source e) et) ?ed) =
                  {sorted_pair (ev_source e') (ev_target e') | e'.
                       e' \<in> set (es @ [e]) \<and> ev_timestamp e' \<le> ts \<and> ev_source e' \<noteq> ev_target e'}"
            using keys old q ne by auto
        qed
      qed
    qed
  qed
qed

lemma dict_inv_foldl:
  assumes "edge_dict st = []"
  shows "dict_inv es ts (edge_dict (foldl (collect_step ts) st es))"
proof (induction es rule: rev_induct)
  case Nil
  then show ?case using assms by (simp add: dict_inv_def)
next
  case (snoc e es)
  then show ?case using dict_inv_step[of es ts "foldl (collect_step ts) st es" e] by simp
qed

lemma dict_inv_collect: "dict_inv (g_edges G) ts (edge_dict (collect_edges G ts core))"
  unfolding collect_edges_def by (rule dict_inv_foldl) simp

section \<open>The structure of a snapshot\<close>

lemma get_elements_unfold:
  "get_elements G ts core tap =
     (case timestamp_range G of
        Inl e \<Rightarrow> Inl e
      | Inr (mn, mx) \<Rightarrow>
          (case snapshot_node_elements G ts core of
             Inl e \<Rightarrow> Inl e
           | Inr node_els \<Rightarrow>
               (case highlight (snapshot_graph G ts core) core tap
                       (node_els @ (if mn < ts then map (\<lambda>(k, d). Edge d) (ranked_edges G ts core mn mx)
                                    else [])) of
                  Inl e \<Rightarrow> Inl e
                | Inr els \<Rightarrow> Inr (if ts \<le> mn then filter is_core_element els else els))))"
  unfolding get_elements_def snapshot_node_elements_def snapshot_graph_def ranked_edges_def
    top_nodes_def local_ranking_def Let_def
  by (rule refl)

lemma for_each_Inr:
  "for_each f xs = Inr ys \<Longrightarrow> list_all2 (\<lambda>x y. f x = Inr y) xs ys"
  by (induction xs arbitrary: ys) (auto split: sum.splits)

lemma for_each_total:
  "(\<And>x. x \<in> set xs \<Longrightarrow> \<exists>y. f x = Inr y) \<Longrightarrow> \<exists>ys. for_each f xs = Inr ys"
proof (induction xs)
  case Nil
  then show ?case by simp
next
  case (Cons x xs)
  then obtain y where "f x = Inr y" by auto
  moreover from Cons obtain ys where "for_each f xs = Inr ys" by auto
  ultimately show ?case by simp
qed

lemma for_each_Inl:
  "for_each f xs = Inl e \<Longrightarrow> \<exists>x \<in> set xs. f x = Inl e"
  by (induction xs) (auto split: sum.splits)

lemma for_each_fails:
  "x \<in> set xs \<Longrightarrow> f x = Inl e \<Longrightarrow> \<exists>e'. for_each f xs = Inl e'"
  by (induction xs) (auto split: sum.splits)

lemma map_of_nodes_None: "map_of (g_nodes G) n = None \<longleftrightarrow> n \<notin> set (node_ids G)"
  by (simp add: node_ids_def map_of_eq_None_iff)

lemma node_element_KeyError:
  "n \<notin> set (node_ids G) \<Longrightarrow> node_element G tG core c b mb n = Inl (KeyError n)"
  using map_of_nodes_None[of G n] by (simp add: node_element_def)

lemma node_element_total:
  assumes "n \<in> set (node_ids G)"
  shows "\<exists>d. node_element G tG core c b mb n = Inr (Node d) \<and> nd_id d = n \<and>
             is_core d = (n \<in> set core) \<and> node_to_core d = None"
proof -
  from assms obtain a where "map_of (g_nodes G) n = Some a"
    using map_of_nodes_None[of G n] by auto
  then show ?thesis by (simp add: node_element_def Let_def)
qed

lemma node_element_Inr:
  assumes "node_element G tG core c b mb n = Inr el"
  shows "\<exists>d. el = Node d \<and> nd_id d = n \<and> is_core d = (n \<in> set core) \<and> node_to_core d = None"
    and "n \<in> set (node_ids G)"
proof -
  show in_G: "n \<in> set (node_ids G)"
    using assms node_element_KeyError[of n G tG core c b mb] by auto
  show "\<exists>d. el = Node d \<and> nd_id d = n \<and> is_core d = (n \<in> set core) \<and> node_to_core d = None"
    using node_element_total[OF in_G, of tG core c b mb] assms by auto
qed

lemma node_elements_simps:
  "node_elements [] = []"
  "node_elements (Node d # els) = d # node_elements els"
  "node_elements (Edge e # els) = node_elements els"
  "node_elements (xs @ ys) = node_elements xs @ node_elements ys"
  by (simp_all add: node_elements_def)

lemma edge_elements_simps:
  "edge_elements [] = []"
  "edge_elements (Node d # els) = edge_elements els"
  "edge_elements (Edge e # els) = e # edge_elements els"
  "edge_elements (xs @ ys) = edge_elements xs @ edge_elements ys"
  by (simp_all add: edge_elements_def)

lemma elements_of_nodes:
  "node_elements (map Node ds) = ds" "edge_elements (map Node ds) = []"
  by (induction ds) (simp_all add: node_elements_simps edge_elements_simps)

lemma elements_of_edges:
  "node_elements (map (\<lambda>(k, d). Edge d) ed) = []"
  "edge_elements (map (\<lambda>(k, d). Edge d) ed) = map snd ed"
  by (induction ed) (auto simp: node_elements_simps edge_elements_simps)

lemma node_elements_apply_highlight:
  "node_elements (map (apply_highlight hn he) els) =
     map (\<lambda>d. d\<lparr> node_to_core := Some (nd_id d \<in> set hn) \<rparr>) (node_elements els)"
  by (induction els)
     (auto simp: node_elements_simps apply_highlight_def split: element.splits)

lemma edge_elements_apply_highlight:
  "edge_elements (map (apply_highlight hn he) els) =
     map (\<lambda>d. d\<lparr> edge_to_core := (source d, target d) \<in> set he \<or> (target d, source d) \<in> set he \<rparr>)
       (edge_elements els)"
  by (induction els)
     (auto simp: edge_elements_simps apply_highlight_def split: element.splits)

lemma node_elements_filter_core:
  "node_elements (filter is_core_element els) = filter is_core (node_elements els)"
  by (induction els)
     (auto simp: node_elements_simps is_core_element_def split: element.splits)

lemma edge_elements_filter_core: "edge_elements (filter is_core_element els) = []"
  by (induction els)
     (auto simp: edge_elements_simps is_core_element_def split: element.splits)

lemma list_all2_node_elements:
  assumes "list_all2 (\<lambda>n el. \<exists>d. el = Node d \<and> nd_id d = n \<and> P d n) ns els"
  shows "\<exists>ds. els = map Node ds \<and> map nd_id ds = ns \<and> list_all2 (\<lambda>d n. P d n) ds ns"
  using assms
proof (induction ns els rule: list_all2_induct)
  case Nil
  then show ?case by simp
next
  case (Cons n ns el els)
  then obtain d ds where "el = Node d" "nd_id d = n" "P d n" "els = map Node ds"
    "map nd_id ds = ns" "list_all2 (\<lambda>d n. P d n) ds ns" by auto
  then show ?case by (intro exI[of _ "d # ds"]) simp
qed

lemma snapshot_node_elements_Inr:
  assumes "snapshot_node_elements G ts core = Inr node_els"
  shows "\<exists>ds. node_els = map Node ds \<and>
              map nd_id ds = active_nodes (collect_edges G ts core) \<and>
              (\<forall>d \<in> set ds. is_core d = (nd_id d \<in> set core) \<and> node_to_core d = None)"
    and "set (active_nodes (collect_edges G ts core)) \<subseteq> set (node_ids G)"
proof -
  let ?act = "active_nodes (collect_edges G ts core)"
  let ?tG = "snapshot_graph G ts core"
  let ?f = "node_element G ?tG core (degree_centrality ?tG) (betweenness_centrality ?tG)
              (max_or_one (betweenness_centrality ?tG))"
  have fe: "for_each ?f ?act = Inr node_els"
    using assms by (simp add: snapshot_node_elements_def Let_def)
  have all2: "list_all2 (\<lambda>n el. ?f n = Inr el) ?act node_els"
    by (rule for_each_Inr[OF fe])
  have "list_all2 (\<lambda>n el. \<exists>d. el = Node d \<and> nd_id d = n \<and>
            (is_core d = (n \<in> set core) \<and> node_to_core d = None)) ?act node_els"
    by (rule list_all2_mono[OF all2]) (use node_element_Inr(1) in blast)
  from list_all2_node_elements[OF this]
  obtain ds where ds: "node_els = map Node ds" "map nd_id ds = ?act"
    "list_all2 (\<lambda>d n. is_core d = (n \<in> set core) \<and> node_to_core d = None) ds ?act"
    by blast
  have "\<forall>d \<in> set ds. is_core d = (nd_id d \<in> set core) \<and> node_to_core d = None"
  proof
    fix d assume "d \<in> set ds"
    then obtain i where i: "i < length ds" "ds ! i = d" by (auto simp: in_set_conv_nth)
    have "?act ! i = nd_id d" using ds(2) i by (metis nth_map)
    then show "is_core d = (nd_id d \<in> set core) \<and> node_to_core d = None"
      using ds(3) i by (auto simp: list_all2_conv_all_nth)
  qed
  then show "\<exists>ds. node_els = map Node ds \<and> map nd_id ds = ?act \<and>
              (\<forall>d \<in> set ds. is_core d = (nd_id d \<in> set core) \<and> node_to_core d = None)"
    using ds by blast
  show "set ?act \<subseteq> set (node_ids G)"
  proof
    fix n assume "n \<in> set ?act"
    then obtain i where i: "i < length ?act" "?act ! i = n" by (auto simp: in_set_conv_nth)
    then have "?f n = Inr (node_els ! i)" using all2 by (auto simp: list_all2_conv_all_nth)
    then show "n \<in> set (node_ids G)" by (rule node_element_Inr(2))
  qed
qed

lemma snapshot_node_elements_total:
  assumes "set (active_nodes (collect_edges G ts core)) \<subseteq> set (node_ids G)"
  shows "\<exists>node_els. snapshot_node_elements G ts core = Inr node_els"
  unfolding snapshot_node_elements_def Let_def
  by (rule for_each_total) (use assms node_element_total in blast)

lemma node_element_Inl: "node_element G tG core c b mb n = Inl e \<Longrightarrow> e = KeyError n"
  by (cases "map_of (g_nodes G) n") (simp_all add: node_element_def Let_def)

lemma snapshot_node_elements_KeyError:
  assumes "n \<in> set (active_nodes (collect_edges G ts core))" "n \<notin> set (node_ids G)"
  shows "\<exists>k. snapshot_node_elements G ts core = Inl (KeyError k)"
proof -
  let ?act = "active_nodes (collect_edges G ts core)"
  let ?tG = "snapshot_graph G ts core"
  let ?f = "node_element G ?tG core (degree_centrality ?tG) (betweenness_centrality ?tG)
              (max_or_one (betweenness_centrality ?tG))"
  have "?f n = Inl (KeyError n)" using assms(2) by (rule node_element_KeyError)
  from for_each_fails[of n ?act ?f, OF assms(1) this] obtain e where e: "for_each ?f ?act = Inl e" by blast
  from for_each_Inl[OF e] obtain x where "?f x = Inl e" by blast
  then have "e = KeyError x" by (rule node_element_Inl)
  then show ?thesis using e by (auto simp: snapshot_node_elements_def Let_def)
qed

section \<open>The temporary graph\<close>

lemma sg_nodes_foldl_add_node:
  "set (sg_nodes (foldl add_node g ns)) = set (sg_nodes g) \<union> set ns"
  by (induction ns arbitrary: g) (auto simp: add_node_def set_set_add)

lemma sg_edges_foldl_add_node: "sg_edges (foldl add_node g ns) = sg_edges g"
  by (induction ns arbitrary: g) (auto simp: add_node_def)

lemma sg_nodes_add_edge: "set (sg_nodes (add_edge g e)) = set (sg_nodes g) \<union> {fst e, snd e}"
  by (auto simp: add_edge_def add_node_def Let_def set_set_add)

lemma has_edge_add_edge:
  "has_edge (add_edge g e) u v \<longleftrightarrow> has_edge g u v \<or> (fst e = u \<and> snd e = v) \<or> (fst e = v \<and> snd e = u)"
  by (cases e) (auto simp: add_edge_def add_node_def Let_def has_edge_def)

lemma sg_nodes_foldl_add_edge:
  "set (sg_nodes (foldl add_edge g es)) = set (sg_nodes g) \<union> fst ` set es \<union> snd ` set es"
  by (induction es arbitrary: g) (auto simp: sg_nodes_add_edge)

lemma has_edge_foldl_add_edge:
  "has_edge (foldl add_edge g es) u v \<longleftrightarrow> has_edge g u v \<or> (u, v) \<in> set es \<or> (v, u) \<in> set es"
proof (induction es arbitrary: g)
  case Nil
  then show ?case by simp
next
  case (Cons e es)
  obtain a b where e: "e = (a, b)" by (cases e)
  have "has_edge (foldl add_edge g (e # es)) u v \<longleftrightarrow>
          has_edge (add_edge g e) u v \<or> (u, v) \<in> set es \<or> (v, u) \<in> set es"
    using Cons.IH[of "add_edge g e"] by simp
  also have "\<dots> \<longleftrightarrow> has_edge g u v \<or> (u, v) \<in> set (e # es) \<or> (v, u) \<in> set (e # es)"
    unfolding has_edge_add_edge e by auto
  finally show ?case .
qed

lemma sg_nodes_temp_graph:
  "set (sg_nodes (temp_graph active es)) = set active \<union> ev_source ` set es \<union> ev_target ` set es"
  by (auto simp: temp_graph_def sg_nodes_foldl_add_edge sg_nodes_foldl_add_node image_iff)

lemma has_edge_temp_graph:
  "has_edge (temp_graph active es) u v \<longleftrightarrow>
     (\<exists>e \<in> set es. (ev_source e = u \<and> ev_target e = v) \<or> (ev_source e = v \<and> ev_target e = u))"
proof -
  have "\<not> has_edge (foldl add_node \<lparr> sg_nodes = [], sg_edges = [] \<rparr> active) u v"
    by (simp add: has_edge_def sg_edges_foldl_add_node)
  then show ?thesis
    unfolding temp_graph_def has_edge_foldl_add_edge by (auto simp: image_iff)
qed

lemma active_collect_edges:
  "set (active_nodes (collect_edges G ts core)) =
     set core \<union> (\<Union>e \<in> {e \<in> set (g_edges G). ev_timestamp e \<le> ts}. {ev_source e, ev_target e})"
  by (simp add: collect_edges_def collect_active_set set_py_set)

lemma distinct_active_collect_edges: "distinct (active_nodes (collect_edges G ts core))"
  by (simp add: collect_edges_def collect_active_distinct distinct_py_set)

lemma up_to_collect_edges:
  "edges_up_to_timestamp (collect_edges G ts core) = filter (\<lambda>e. ev_timestamp e \<le> ts) (g_edges G)"
  by (simp add: collect_edges_def collect_up_to)

lemma sg_nodes_snapshot_graph:
  "set (sg_nodes (snapshot_graph G ts core)) = set (active_nodes (collect_edges G ts core))"
  by (auto simp: snapshot_graph_def Let_def sg_nodes_temp_graph active_collect_edges up_to_collect_edges)

lemma has_edge_snapshot_graph:
  "has_edge (snapshot_graph G ts core) u v \<longleftrightarrow> 0 < pair_count (g_edges G) ts u v"
  by (auto simp: snapshot_graph_def Let_def has_edge_temp_graph up_to_collect_edges pair_count_def
        filter_empty_conv)

section \<open>The highlighter\<close>

lemma shortest_path_cases:
  "s \<in> set (sg_nodes g) \<Longrightarrow> t \<in> set (sg_nodes g) \<Longrightarrow>
     shortest_path g s t = Inl NetworkXNoPath \<or> (\<exists>p. shortest_path g s t = Inr p)"
  by (simp add: shortest_path_def split: list.splits)

lemma shortest_path_absent:
  "s \<notin> set (sg_nodes g) \<Longrightarrow> shortest_path g s t = Inl (NodeNotFound s)"
  by (simp add: shortest_path_def)

lemma highlight_paths_total:
  assumes "f \<in> set (sg_nodes g)" "set core \<subseteq> set (sg_nodes g)"
  shows "\<exists>r. highlight_paths g f core acc = Inr r"
  using assms(2)
proof (induction core arbitrary: acc)
  case Nil
  then show ?case by simp
next
  case (Cons c core)
  obtain hn he where acc: "acc = (hn, he)" by (cases acc)
  from Cons.prems have c: "c \<in> set (sg_nodes g)" and rest: "set core \<subseteq> set (sg_nodes g)" by auto
  from shortest_path_cases[OF assms(1) c] show ?case
  proof
    assume "shortest_path g f c = Inl NetworkXNoPath"
    then show ?thesis using Cons.IH[OF rest] acc by simp
  next
    assume "\<exists>p. shortest_path g f c = Inr p"
    then show ?thesis using Cons.IH[OF rest] acc by auto
  qed
qed

lemma highlight_paths_absent:
  assumes "f \<notin> set (sg_nodes g)" "core \<noteq> []"
  shows "highlight_paths g f core acc = Inl (NodeNotFound f)"
proof -
  obtain c rest where "core = c # rest" using assms(2) by (cases core) auto
  moreover obtain hn he where "acc = (hn, he)" by (cases acc)
  ultimately show ?thesis using shortest_path_absent[OF assms(1)] by simp
qed

lemma highlight_paths_sets:
  assumes "highlight_paths g f core (hn, he) = Inr (hn', he')"
  shows "set hn' = set hn \<union> path_nodes (found_paths g f core) \<and>
         set he' = set he \<union> path_edges (found_paths g f core)"
  using assms
proof (induction core arbitrary: hn he)
  case Nil
  then show ?case by (simp add: found_paths_def path_nodes_def path_edges_def)
next
  case (Cons c core)
  show ?case
  proof (cases "shortest_path g f c")
    case (Inl e)
    with Cons.prems have e: "e = NetworkXNoPath"
      and rest: "highlight_paths g f core (hn, he) = Inr (hn', he')"
      by (cases e; simp)+
    have "found_paths g f (c # core) = found_paths g f core"
      using Inl by (simp add: found_paths_def)
    then show ?thesis using Cons.IH[OF rest] by simp
  next
    case (Inr p)
    with Cons.prems have rest:
      "highlight_paths g f core (foldl (\<lambda>s x. set_add x s) hn p,
          foldl (\<lambda>s x. set_add x s) he (zip (butlast p) (tl p))) = Inr (hn', he')"
      by simp
    have fp: "found_paths g f (c # core) = p # found_paths g f core"
      using Inr by (simp add: found_paths_def)
    show ?thesis using Cons.IH[OF rest]
      by (auto simp: fp path_nodes_def path_edges_def set_foldl_set_add)
  qed
qed

section \<open>What a snapshot contains\<close>

lemma normalize_edges_fields:
  "map fst (normalize_edges ed) = map fst ed"
  "map (\<lambda>(k, d). (source d, target d, weight d)) (normalize_edges ed) =
     map (\<lambda>(k, d). (source d, target d, weight d)) ed"
  by (auto simp: normalize_edges_def Let_def split: list.splits)

lemma mark_edges_fields:
  "map fst (mark_edges tn core ed) = map fst ed"
  "map (\<lambda>(k, d). (source d, target d, weight d)) (mark_edges tn core ed) =
     map (\<lambda>(k, d). (source d, target d, weight d)) ed"
  by (auto simp: mark_edges_def)

lemma ranked_edges_fields:
  "map (\<lambda>(k, d). (source d, target d, weight d)) (ranked_edges G ts core mn mx) =
     map (\<lambda>(k, d). (source d, target d, weight d)) (edge_dict (collect_edges G ts core))"
  by (simp add: ranked_edges_def mark_edges_fields normalize_edges_fields)

lemma ranked_edges_flag:
  "(k, d) \<in> set (ranked_edges G ts core mn mx) \<Longrightarrow>
     edge_to_core d = spotlight (top_nodes G ts core mn mx) core d"
  by (auto simp: ranked_edges_def mark_edges_def spotlight_def)

lemma highlight_None: "highlight g core None els = Inr els"
  by (simp add: highlight_def)

lemma highlight_Some_Inr:
  assumes "highlight g core (Some f) els = Inr hl"
  shows "\<exists>hn he. highlight_paths g f core ([], []) = Inr (hn, he) \<and>
                 hl = map (apply_highlight hn he) els"
  using assms by (auto simp: highlight_def split: sum.splits)

lemma get_elements_InrD:
  assumes "get_elements G ts core tap = Inr els"
  shows "\<exists>mn mx ds hl.
           timestamp_range G = Inr (mn, mx) \<and>
           snapshot_node_elements G ts core = Inr (map Node ds) \<and>
           map nd_id ds = active_nodes (collect_edges G ts core) \<and>
           (\<forall>d \<in> set ds. is_core d = (nd_id d \<in> set core) \<and> node_to_core d = None) \<and>
           highlight (snapshot_graph G ts core) core tap
             (map Node ds @ (if mn < ts then map (\<lambda>(k, d). Edge d) (ranked_edges G ts core mn mx)
                             else [])) = Inr hl \<and>
           els = (if ts \<le> mn then filter is_core_element hl else hl)"
proof -
  from assms obtain mn mx where tr: "timestamp_range G = Inr (mn, mx)"
    by (cases "timestamp_range G") (auto simp: get_elements_unfold)
  from assms tr obtain node_els where ne: "snapshot_node_elements G ts core = Inr node_els"
    by (cases "snapshot_node_elements G ts core") (auto simp: get_elements_unfold)
  from snapshot_node_elements_Inr(1)[OF ne] obtain ds where
    ds: "node_els = map Node ds" "map nd_id ds = active_nodes (collect_edges G ts core)"
    "\<forall>d \<in> set ds. is_core d = (nd_id d \<in> set core) \<and> node_to_core d = None"
    by blast
  let ?cyto = "map Node ds @ (if mn < ts then map (\<lambda>(k, d). Edge d) (ranked_edges G ts core mn mx)
                             else [])"
  from assms tr ne ds(1) obtain hl where
    hl: "highlight (snapshot_graph G ts core) core tap ?cyto = Inr hl"
    by (cases "highlight (snapshot_graph G ts core) core tap ?cyto")
       (auto simp: get_elements_unfold)
  have "els = (if ts \<le> mn then filter is_core_element hl else hl)"
    using assms tr ne ds(1) hl by (auto simp: get_elements_unfold)
  then show ?thesis using tr ne ds hl by blast
qed

lemma timestamp_range_le:
  assumes "timestamp_range G = Inr (mn, mx)"
  shows "mn \<le> mx" and "\<exists>e \<in> set (g_edges G). ev_timestamp e = mn"
    and "\<forall>e \<in> set (g_edges G). mn \<le> ev_timestamp e \<and> ev_timestamp e \<le> mx"
proof -
  have fmin: "\<And>(t::rat) ts. foldl min t ts = Min (set (t # ts))"
  proof -
    fix t :: rat and ts
    show "foldl min t ts = Min (set (t # ts))"
    proof (induction ts arbitrary: t)
      case Nil then show ?case by simp
    next
      case (Cons z zs)
      have "Min (set (t # z # zs)) = Min (insert (min t z) (set zs))"
        by (cases "zs = []") (auto simp: min.assoc min.commute min.left_commute)
      then show ?case using Cons[of "min t z"] by simp
    qed
  qed
  have fmax: "\<And>(t::rat) ts. foldl max t ts = Max (set (t # ts))"
  proof -
    fix t :: rat and ts
    show "foldl max t ts = Max (set (t # ts))"
    proof (induction ts arbitrary: t)
      case Nil then show ?case by simp
    next
      case (Cons z zs)
      have "Max (set (t # z # zs)) = Max (insert (max t z) (set zs))"
        by (cases "zs = []") (auto simp: max.assoc max.commute max.left_commute)
      then show ?case using Cons[of "max t z"] by simp
    qed
  qed
  from assms obtain t ts where tts: "map ev_timestamp (g_edges G) = t # ts"
    and mn: "mn = foldl min t ts" and mx: "mx = foldl max t ts"
    by (auto simp: timestamp_range_def split: list.splits)
  let ?S = "set (map ev_timestamp (g_edges G))"
  have S: "?S = set (t # ts)" using tts by simp
  have mnS: "mn = Min ?S" and mxS: "mx = Max ?S" using mn mx fmin fmax S by auto
  have fin: "finite ?S" and ne: "?S \<noteq> {}" using tts by auto
  have "mn \<in> ?S" unfolding mnS using fin ne by (rule Min_in)
  then show ex: "\<exists>e \<in> set (g_edges G). ev_timestamp e = mn" by auto
  show all: "\<forall>e \<in> set (g_edges G). mn \<le> ev_timestamp e \<and> ev_timestamp e \<le> mx"
    unfolding mnS mxS using fin by (auto intro: Min_le Max_ge)
  show "mn \<le> mx" using ex all by auto
qed

lemma timestamp_range_total:
  "g_edges G \<noteq> [] \<Longrightarrow> \<exists>mn mx. timestamp_range G = Inr (mn, mx)"
  by (cases "g_edges G") (simp_all add: timestamp_range_def)

lemma map_filter_cong_pred:
  "\<forall>d \<in> set xs. P d = (f d \<in> A) \<Longrightarrow> map f (filter P xs) = filter (\<lambda>n. n \<in> A) (map f xs)"
  by (induction xs) auto

lemma snapshot_node_ids:
  assumes "get_elements G ts core tap = Inr els" "timestamp_range G = Inr (mn, mx)"
  shows "map nd_id (node_elements els) =
           (if ts \<le> mn then filter (\<lambda>n. n \<in> set core) (active_nodes (collect_edges G ts core))
            else active_nodes (collect_edges G ts core))"
    and "\<forall>d \<in> set (node_elements els). is_core d = (nd_id d \<in> set core)"
proof -
  from get_elements_InrD[OF assms(1)] assms(2) obtain ds hl where
    ds: "map nd_id ds = active_nodes (collect_edges G ts core)"
        "\<forall>d \<in> set ds. is_core d = (nd_id d \<in> set core) \<and> node_to_core d = None"
    and hl: "highlight (snapshot_graph G ts core) core tap
             (map Node ds @ (if mn < ts then map (\<lambda>(k, d). Edge d) (ranked_edges G ts core mn mx)
                             else [])) = Inr hl"
    and els: "els = (if ts \<le> mn then filter is_core_element hl else hl)"
    by auto
  have "\<exists>f. node_elements hl = map f ds \<and> (\<forall>d. nd_id (f d) = nd_id d \<and> is_core (f d) = is_core d)"
  proof (cases tap)
    case None
    then have "hl = map Node ds @ (if mn < ts then map (\<lambda>(k, d). Edge d) (ranked_edges G ts core mn mx)
                             else [])" using hl by (simp add: highlight_None)
    then have "node_elements hl = map (\<lambda>d. d) ds"
      by (simp add: node_elements_simps elements_of_nodes elements_of_edges)
    then show ?thesis by blast
  next
    case (Some f)
    with highlight_Some_Inr hl obtain hn he where
      "hl = map (apply_highlight hn he)
              (map Node ds @ (if mn < ts then map (\<lambda>(k, d). Edge d) (ranked_edges G ts core mn mx)
                             else []))" by blast
    then have "node_elements hl = map (\<lambda>d. d\<lparr> node_to_core := Some (nd_id d \<in> set hn) \<rparr>)
            (node_elements (map Node ds @ (if mn < ts
                 then map (\<lambda>(k, d). Edge d) (ranked_edges G ts core mn mx) else [])))"
      by (simp only: node_elements_apply_highlight)
    then have "node_elements hl = map (\<lambda>d. d\<lparr> node_to_core := Some (nd_id d \<in> set hn) \<rparr>) ds"
      by (simp add: node_elements_simps elements_of_nodes elements_of_edges)
    then show ?thesis by (intro exI[of _ "\<lambda>d. d\<lparr> node_to_core := Some (nd_id d \<in> set hn) \<rparr>"]) simp
  qed
  then obtain f where f: "node_elements hl = map f ds"
    "\<And>d. nd_id (f d) = nd_id d" "\<And>d. is_core (f d) = is_core d" by blast
  have core_flag: "\<forall>d \<in> set (node_elements hl). is_core d = (nd_id d \<in> set core)"
    using f ds(2) by auto
  have ids: "map nd_id (node_elements hl) = active_nodes (collect_edges G ts core)"
    using f ds(1) by (simp add: comp_def)
  show "\<forall>d \<in> set (node_elements els). is_core d = (nd_id d \<in> set core)"
    using core_flag els by (auto simp: node_elements_filter_core)
  have "map nd_id (filter is_core (node_elements hl)) =
          filter (\<lambda>n. n \<in> set core) (map nd_id (node_elements hl))"
    using core_flag by (rule map_filter_cong_pred)
  then show "map nd_id (node_elements els) =
           (if ts \<le> mn then filter (\<lambda>n. n \<in> set core) (active_nodes (collect_edges G ts core))
            else active_nodes (collect_edges G ts core))"
    using els ids by (simp add: node_elements_filter_core)
qed

section \<open>Aggregated edges of a snapshot\<close>

lemma edge_dict_entry:
  assumes "(k, d) \<in> set (edge_dict (collect_edges G ts core))"
  shows "k = sorted_pair (source d) (target d)" and "source d \<noteq> target d"
    and "weight d = pair_count (g_edges G) ts (source d) (target d)"
  using assms dict_inv_collect[of G ts core] by (auto simp: dict_inv_def)

lemma edge_dict_distinct: "distinct (map fst (edge_dict (collect_edges G ts core)))"
  using dict_inv_collect[of G ts core] by (simp add: dict_inv_def)

lemma edge_dict_has_key:
  assumes "e \<in> set (g_edges G)" "ev_timestamp e \<le> ts" "ev_source e \<noteq> ev_target e"
  shows "\<exists>d. (sorted_pair (ev_source e) (ev_target e), d) \<in> set (edge_dict (collect_edges G ts core))"
proof -
  have "sorted_pair (ev_source e) (ev_target e) \<in> fst ` set (edge_dict (collect_edges G ts core))"
    using dict_inv_collect[of G ts core] assms unfolding dict_inv_def by blast
  then show ?thesis by force
qed

lemma pair_count_sorted_pair:
  "sorted_pair a b = sorted_pair c d \<Longrightarrow> pair_count es ts a b = pair_count es ts c d"
  by (auto simp: sorted_pair_eq_iff pair_count_def intro: arg_cong[where f = length] filter_cong)

lemma pair_count_mono: "c1 \<le> c2 \<Longrightarrow> pair_count es c1 a b \<le> pair_count es c2 a b"
  unfolding pair_count_def by (induction es) auto

lemma pair_count_pos_iff:
  "0 < pair_count es ts a b \<longleftrightarrow>
     (\<exists>e \<in> set es. ev_timestamp e \<le> ts \<and>
        ((ev_source e = a \<and> ev_target e = b) \<or> (ev_source e = b \<and> ev_target e = a)))"
  by (auto simp: pair_count_def filter_empty_conv)

lemma snapshot_edges:
  assumes "get_elements G ts core tap = Inr els" "timestamp_range G = Inr (mn, mx)"
  shows "map (\<lambda>d. (source d, target d, weight d)) (edge_elements els) =
           (if mn < ts
            then map (\<lambda>(k, d). (source d, target d, weight d)) (edge_dict (collect_edges G ts core))
            else [])"
proof -
  from get_elements_InrD[OF assms(1)] assms(2) obtain ds hl where
    hl: "highlight (snapshot_graph G ts core) core tap
             (map Node ds @ (if mn < ts then map (\<lambda>(k, d). Edge d) (ranked_edges G ts core mn mx)
                             else [])) = Inr hl"
    and els: "els = (if ts \<le> mn then filter is_core_element hl else hl)"
    by auto
  let ?cyto = "map Node ds @ (if mn < ts then map (\<lambda>(k, d). Edge d) (ranked_edges G ts core mn mx)
                             else [])"
  have cy: "edge_elements ?cyto = (if mn < ts then map snd (ranked_edges G ts core mn mx) else [])"
    by (simp add: edge_elements_simps elements_of_nodes elements_of_edges)
  have "map (\<lambda>d. (source d, target d, weight d)) (edge_elements hl) =
          map (\<lambda>d. (source d, target d, weight d)) (edge_elements ?cyto)"
  proof (cases tap)
    case None
    then show ?thesis using hl by (simp add: highlight_None)
  next
    case (Some f)
    with highlight_Some_Inr hl obtain hn he where "hl = map (apply_highlight hn he) ?cyto" by blast
    then have "edge_elements hl =
        map (\<lambda>d. d\<lparr> edge_to_core := (source d, target d) \<in> set he \<or> (target d, source d) \<in> set he \<rparr>)
          (edge_elements ?cyto)"
      by (simp only: edge_elements_apply_highlight)
    then show ?thesis by (simp add: comp_def)
  qed
  also have "\<dots> = (if mn < ts
            then map (\<lambda>(k, d). (source d, target d, weight d)) (ranked_edges G ts core mn mx)
            else [])"
    unfolding cy by (simp add: comp_def case_prod_beta)
  finally have "map (\<lambda>d. (source d, target d, weight d)) (edge_elements hl) =
          (if mn < ts
            then map (\<lambda>(k, d). (source d, target d, weight d)) (edge_dict (collect_edges G ts core))
            else [])"
    by (simp add: ranked_edges_fields)
  then show ?thesis using els by (auto simp: edge_elements_filter_core)
qed

lemma snapshot_edge_entry:
  assumes "get_elements G ts core tap = Inr els" "d \<in> set (edge_elements els)"
  shows "\<exists>mn mx d'. timestamp_range G = Inr (mn, mx) \<and> mn < ts \<and>
            (sorted_pair (source d) (target d), d') \<in> set (edge_dict (collect_edges G ts core)) \<and>
            source d' = source d \<and> target d' = target d \<and> weight d' = weight d"
proof -
  from get_elements_InrD[OF assms(1)] obtain mn mx where tr: "timestamp_range G = Inr (mn, mx)"
    by blast
  note se = snapshot_edges[OF assms(1) tr]
  have lt: "mn < ts" using se assms(2) by (cases "mn < ts") auto
  have "(source d, target d, weight d) \<in>
          set (map (\<lambda>d. (source d, target d, weight d)) (edge_elements els))"
    using assms(2) by force
  then have "(source d, target d, weight d) \<in>
          set (map (\<lambda>(k, d). (source d, target d, weight d)) (edge_dict (collect_edges G ts core)))"
    using se lt by simp
  then obtain k d' where kd: "(k, d') \<in> set (edge_dict (collect_edges G ts core))"
    "source d' = source d" "target d' = target d" "weight d' = weight d" by auto
  then have "k = sorted_pair (source d) (target d)" using edge_dict_entry(1)[OF kd(1)] by simp
  then show ?thesis using tr lt kd by blast
qed

lemma get_elements_total:
  assumes "g_edges G \<noteq> []" "wf_graph G" "set core \<subseteq> set (node_ids G)"
    and "\<forall>f. tap = Some f \<longrightarrow> f \<in> set (active_nodes (collect_edges G ts core))"
  shows "\<exists>els. get_elements G ts core tap = Inr els"
proof -
  from timestamp_range_total[OF assms(1)] obtain mn mx where tr: "timestamp_range G = Inr (mn, mx)"
    by blast
  have "set (active_nodes (collect_edges G ts core)) \<subseteq> set (node_ids G)"
    using assms(2,3) by (auto simp: active_collect_edges wf_graph_def list_all_iff)
  from snapshot_node_elements_total[OF this] obtain node_els where
    ne: "snapshot_node_elements G ts core = Inr node_els" by blast
  let ?cyto = "node_els @ (if mn < ts then map (\<lambda>(k, d). Edge d) (ranked_edges G ts core mn mx)
                           else [])"
  have "\<exists>hl. highlight (snapshot_graph G ts core) core tap ?cyto = Inr hl"
  proof (cases tap)
    case None
    then show ?thesis by (simp add: highlight_None)
  next
    case (Some f)
    then have f: "f \<in> set (sg_nodes (snapshot_graph G ts core))"
      using assms(4) by (simp add: sg_nodes_snapshot_graph)
    have "set core \<subseteq> set (sg_nodes (snapshot_graph G ts core))"
      by (auto simp: sg_nodes_snapshot_graph active_collect_edges)
    from highlight_paths_total[OF f this, of "([], [])"] obtain hn he where
      "highlight_paths (snapshot_graph G ts core) f core ([], []) = Inr (hn, he)" by auto
    then show ?thesis using Some by (simp add: highlight_def)
  qed
  then obtain hl where "highlight (snapshot_graph G ts core) core tap ?cyto = Inr hl" by blast
  then show ?thesis using tr ne by (simp add: get_elements_unfold)
qed

section \<open>Evaluated examples\<close>

lemma example_range: "timestamp_range G_example = Inr (1, 4)"
  by code_simp

lemma example_snapshot: "get_elements G_example 4 [''A''] None = Inr snap_example"
  by code_simp

lemma pair_range: "timestamp_range G_pair = Inr (1, 3)"
  by code_simp

lemma pair_snapshot: "get_elements G_pair 3 [''A''] None = Inr snap_pair"
  by code_simp

lemma snapshot_edge_keys:
  assumes "get_elements G ts core tap = Inr els" "timestamp_range G = Inr (mn, mx)"
  shows "map (\<lambda>d. sorted_pair (source d) (target d)) (edge_elements els) =
           (if mn < ts then map fst (edge_dict (collect_edges G ts core)) else [])"
proof -
  have "map (\<lambda>d. sorted_pair (source d) (target d)) (edge_elements els) =
          map (\<lambda>(s, t, w). sorted_pair s t)
            (map (\<lambda>d. (source d, target d, weight d)) (edge_elements els))"
    by (simp add: comp_def)
  also have "\<dots> = (if mn < ts
       then map (\<lambda>(k, d). sorted_pair (source d) (target d)) (edge_dict (collect_edges G ts core))
       else [])"
    unfolding snapshot_edges[OF assms] by (simp add: comp_def case_prod_beta)
  also have "map (\<lambda>(k, d). sorted_pair (source d) (target d)) (edge_dict (collect_edges G ts core)) =
               map fst (edge_dict (collect_edges G ts core))"
    by (rule map_cong) (auto dest: edge_dict_entry(1))
  finally show ?thesis .
qed

text \<open>
  C4. Pair symmetry: in every snapshot there is at most one aggregated edge for an unordered
  pair of accounts; its two end points differ (a self-loop event never yields an edge) and its
  weight is the number of events between the two accounts, in both directions, that are not later
  than the cutoff; and once the cutoff lies after the first event, every such event between two
  different accounts is counted in the edge of its pair. In the loop's dictionary that edge sits
  under the sorted pair of the two ids.
\<close>

theorem pair_symmetry:
  assumes "get_elements G ts core tap = Inr els" and "timestamp_range G = Inr (mn, mx)"
  shows "distinct (map (\<lambda>d. sorted_pair (source d) (target d)) (edge_elements els)) \<and>
         (\<forall>d \<in> set (edge_elements els).
            source d \<noteq> target d \<and>
            weight d = pair_count (g_edges G) ts (source d) (target d) \<and>
            (\<exists>d'. (sorted_pair (source d) (target d), d') \<in> set (edge_dict (collect_edges G ts core)) \<and>
                  weight d' = weight d)) \<and>
         (\<forall>e \<in> set (g_edges G).
            mn < ts \<and> ev_timestamp e \<le> ts \<and> ev_source e \<noteq> ev_target e \<longrightarrow>
            (\<exists>d \<in> set (edge_elements els).
               sorted_pair (source d) (target d) = sorted_pair (ev_source e) (ev_target e) \<and>
               weight d = pair_count (g_edges G) ts (ev_source e) (ev_target e)))"
proof (intro conjI ballI impI)
  show "distinct (map (\<lambda>d. sorted_pair (source d) (target d)) (edge_elements els))"
    unfolding snapshot_edge_keys[OF assms] by (simp add: edge_dict_distinct)
next
  fix d assume d: "d \<in> set (edge_elements els)"
  from snapshot_edge_entry[OF assms(1) d] obtain d' where
    d': "(sorted_pair (source d) (target d), d') \<in> set (edge_dict (collect_edges G ts core))"
    "source d' = source d" "target d' = target d" "weight d' = weight d" by blast
  show "source d \<noteq> target d" using edge_dict_entry(2)[OF d'(1)] d' by simp
  show "weight d = pair_count (g_edges G) ts (source d) (target d)"
    using edge_dict_entry(3)[OF d'(1)] d' by simp
  show "\<exists>d'. (sorted_pair (source d) (target d), d') \<in> set (edge_dict (collect_edges G ts core)) \<and>
                  weight d' = weight d" using d' by blast
next
  fix e
  assume e: "e \<in> set (g_edges G)"
    and q: "mn < ts \<and> ev_timestamp e \<le> ts \<and> ev_source e \<noteq> ev_target e"
  from edge_dict_has_key[OF e, of ts core] q obtain d' where
    d': "(sorted_pair (ev_source e) (ev_target e), d') \<in> set (edge_dict (collect_edges G ts core))"
    by blast
  then have "(source d', target d', weight d') \<in>
      set (map (\<lambda>(k, d). (source d, target d, weight d)) (edge_dict (collect_edges G ts core)))"
    by force
  then have "(source d', target d', weight d') \<in>
      set (map (\<lambda>d. (source d, target d, weight d)) (edge_elements els))"
    using snapshot_edges[OF assms] q by simp
  then obtain d where d: "d \<in> set (edge_elements els)" "source d = source d'" "target d = target d'"
    "weight d = weight d'" by auto
  have key: "sorted_pair (source d) (target d) = sorted_pair (ev_source e) (ev_target e)"
    using edge_dict_entry(1)[OF d'] d by simp
  have "weight d = pair_count (g_edges G) ts (source d) (target d)"
    using edge_dict_entry(3)[OF d'] d by simp
  also have "\<dots> = pair_count (g_edges G) ts (ev_source e) (ev_target e)"
    by (rule pair_count_sorted_pair[OF key])
  finally show "\<exists>d \<in> set (edge_elements els).
               sorted_pair (source d) (target d) = sorted_pair (ev_source e) (ev_target e) \<and>
               weight d = pair_count (g_edges G) ts (ev_source e) (ev_target e)"
    using d(1) key by blast
qed

theorem pair_symmetry_witness:
  "get_elements G_pair 3 [''A''] None = Inr snap_pair \<and> timestamp_range G_pair = Inr (1, 3) \<and>
   map (\<lambda>d. (source d, target d, weight d)) (edge_elements snap_pair) = [(''A'', ''B'', 3)] \<and>
   pair_count (g_edges G_pair) 3 ''B'' ''A'' = 3 \<and>
   distinct (map (\<lambda>d. sorted_pair (source d) (target d)) (edge_elements snap_pair)) \<and>
   list_all (\<lambda>d. source d \<noteq> target d \<and>
                 weight d = pair_count (g_edges G_pair) 3 (source d) (target d))
     (edge_elements snap_pair)"
proof -
  have ex: "map (\<lambda>d. (source d, target d, weight d)) (edge_elements snap_pair) = [(''A'', ''B'', 3)]"
    by code_simp
  have pc: "pair_count (g_edges G_pair) 3 ''B'' ''A'' = 3" by code_simp
  from pair_symmetry[OF pair_snapshot pair_range]
  show ?thesis using pair_snapshot pair_range ex pc by (simp add: list_all_iff)
qed

section \<open>Monotonicity in the cutoff\<close>

lemma active_mono:
  "c1 \<le> c2 \<Longrightarrow>
     set (active_nodes (collect_edges G c1 core)) \<subseteq> set (active_nodes (collect_edges G c2 core))"
  by (auto simp: active_collect_edges intro: order_trans)

lemma core_active: "set core \<subseteq> set (active_nodes (collect_edges G ts core))"
  by (auto simp: active_collect_edges)

lemma snapshot_nodes_eq:
  assumes "get_elements G ts core tap = Inr els" "timestamp_range G = Inr (mn, mx)"
  shows "snapshot_nodes els =
           (if ts \<le> mn then set core else set (active_nodes (collect_edges G ts core)))"
proof -
  have "snapshot_nodes els = set (map nd_id (node_elements els))"
    by (simp add: snapshot_nodes_def)
  also have "\<dots> = (if ts \<le> mn then set core else set (active_nodes (collect_edges G ts core)))"
    unfolding snapshot_node_ids(1)[OF assms] using core_active[of core G ts] by auto
  finally show ?thesis .
qed

lemma pair_snapshot_early: "get_elements G_pair 2 [''A''] None = Inr snap_pair_early"
  by code_simp

text \<open>
  C3. Monotonicity: for two cutoffs \<open>c1 < c2\<close> on the same graph and core set, every account of
  the earlier snapshot is in the later one (the same holds for the active node sets of the two
  runs), and every aggregated edge of the earlier snapshot has an edge on the same unordered pair
  in the later snapshot whose weight is at least as large.
\<close>

theorem cutoff_monotone:
  assumes "c1 < c2"
    and "get_elements G c1 core tap1 = Inr els1"
    and "get_elements G c2 core tap2 = Inr els2"
  shows "snapshot_nodes els1 \<subseteq> snapshot_nodes els2 \<and>
         set (active_nodes (collect_edges G c1 core)) \<subseteq> set (active_nodes (collect_edges G c2 core)) \<and>
         (\<forall>d1 \<in> set (edge_elements els1).
            \<exists>d2 \<in> set (edge_elements els2).
              sorted_pair (source d2) (target d2) = sorted_pair (source d1) (target d1) \<and>
              weight d1 \<le> weight d2)"
proof (intro conjI ballI)
  from get_elements_InrD[OF assms(2)] obtain mn mx where tr: "timestamp_range G = Inr (mn, mx)"
    by blast
  have le: "c1 \<le> c2" using assms(1) by simp
  show act: "set (active_nodes (collect_edges G c1 core)) \<subseteq> set (active_nodes (collect_edges G c2 core))"
    by (rule active_mono[OF le])
  show "snapshot_nodes els1 \<subseteq> snapshot_nodes els2"
    unfolding snapshot_nodes_eq[OF assms(2) tr] snapshot_nodes_eq[OF assms(3) tr]
    using act core_active[of core G c2] assms(1) by auto
  fix d1 assume d1: "d1 \<in> set (edge_elements els1)"
  from snapshot_edge_entry[OF assms(2) d1] tr obtain d1' where
    lt: "mn < c1"
    and d1': "(sorted_pair (source d1) (target d1), d1') \<in> set (edge_dict (collect_edges G c1 core))"
    "source d1' = source d1" "target d1' = target d1" "weight d1' = weight d1" by auto
  have w1: "weight d1 = pair_count (g_edges G) c1 (source d1) (target d1)"
    using edge_dict_entry(3)[OF d1'(1)] d1' by simp
  have "sorted_pair (source d1) (target d1) \<in> fst ` set (edge_dict (collect_edges G c1 core))"
    using d1'(1) by force
  then obtain e where e: "e \<in> set (g_edges G)" "ev_timestamp e \<le> c1" "ev_source e \<noteq> ev_target e"
    "sorted_pair (source d1) (target d1) = sorted_pair (ev_source e) (ev_target e)"
    using dict_inv_collect[of G c1 core] unfolding dict_inv_def by auto
  have e2: "ev_timestamp e \<le> c2" using e(2) assms(1) by simp
  from edge_dict_has_key[OF e(1) e2 e(3), of core] obtain d2' where
    d2': "(sorted_pair (ev_source e) (ev_target e), d2') \<in> set (edge_dict (collect_edges G c2 core))"
    by blast
  have "(source d2', target d2', weight d2') \<in>
      set (map (\<lambda>(k, d). (source d, target d, weight d)) (edge_dict (collect_edges G c2 core)))"
    using d2' by force
  then have "(source d2', target d2', weight d2') \<in>
      set (map (\<lambda>d. (source d, target d, weight d)) (edge_elements els2))"
    using snapshot_edges[OF assms(3) tr] lt assms(1) by simp
  then obtain d2 where d2: "d2 \<in> set (edge_elements els2)" "source d2 = source d2'"
    "target d2 = target d2'" "weight d2 = weight d2'" by auto
  have key: "sorted_pair (source d2) (target d2) = sorted_pair (source d1) (target d1)"
    using edge_dict_entry(1)[OF d2'] d2 e(4) by simp
  have "weight d2 = pair_count (g_edges G) c2 (source d2) (target d2)"
    using edge_dict_entry(3)[OF d2'] d2 by simp
  also have "\<dots> = pair_count (g_edges G) c2 (source d1) (target d1)"
    by (rule pair_count_sorted_pair[OF key])
  finally have "weight d1 \<le> weight d2"
    using w1 pair_count_mono[OF le, of "g_edges G" "source d1" "target d1"] by simp
  then show "\<exists>d2 \<in> set (edge_elements els2).
              sorted_pair (source d2) (target d2) = sorted_pair (source d1) (target d1) \<and>
              weight d1 \<le> weight d2"
    using d2(1) key by blast
qed

theorem cutoff_monotone_witness:
  "(2::rat) < 3 \<and> get_elements G_pair 2 [''A''] None = Inr snap_pair_early \<and>
   get_elements G_pair 3 [''A''] None = Inr snap_pair \<and>
   map weight (edge_elements snap_pair_early) = [2] \<and> map weight (edge_elements snap_pair) = [3] \<and>
   snapshot_nodes snap_pair_early \<subseteq> snapshot_nodes snap_pair \<and>
   list_all (\<lambda>d1. list_ex (\<lambda>d2. sorted_pair (source d2) (target d2) = sorted_pair (source d1) (target d1) \<and>
                                weight d1 \<le> weight d2) (edge_elements snap_pair))
     (edge_elements snap_pair_early)"
proof -
  have lt: "(2::rat) < 3" by simp
  have w: "map weight (edge_elements snap_pair_early) = [2]" "map weight (edge_elements snap_pair) = [3]"
    by code_simp+
  from cutoff_monotone[OF lt pair_snapshot_early pair_snapshot]
  show ?thesis using pair_snapshot_early pair_snapshot w by (simp add: list_all_iff list_ex_iff)
qed

section \<open>The snapshot at the first timestamp\<close>

text \<open>
  C2. With the cutoff at the smallest timestamp of the graph the snapshot consists of the core
  nodes, each once, and has no aggregated edge, although the events at that timestamp pass the
  test \<open>timestamp \<le> cutoff\<close>. The snapshot is built whenever the graph is well formed, every core
  id is a node of the graph and the focal node, if any, is an active node.
\<close>

theorem minimum_cutoff_core_only:
  assumes "timestamp_range G = Inr (mn, mx)"
  shows "(wf_graph G \<and> set core \<subseteq> set (node_ids G) \<and>
          (\<forall>f. tap = Some f \<longrightarrow> f \<in> set (active_nodes (collect_edges G mn core)))
          \<longrightarrow> (\<exists>els. get_elements G mn core tap = Inr els)) \<and>
         (\<forall>els. get_elements G mn core tap = Inr els \<longrightarrow>
            snapshot_nodes els = set core \<and> distinct (map nd_id (node_elements els)) \<and>
            edge_elements els = []) \<and>
         edges_up_to_timestamp (collect_edges G mn core) \<noteq> []"
proof (intro conjI allI impI)
  assume "wf_graph G \<and> set core \<subseteq> set (node_ids G) \<and>
          (\<forall>f. tap = Some f \<longrightarrow> f \<in> set (active_nodes (collect_edges G mn core)))"
  moreover have "g_edges G \<noteq> []" using assms by (auto simp: timestamp_range_def)
  ultimately show "\<exists>els. get_elements G mn core tap = Inr els"
    using get_elements_total[of G core tap mn] by blast
next
  fix els assume ge: "get_elements G mn core tap = Inr els"
  show "snapshot_nodes els = set core" using snapshot_nodes_eq[OF ge assms] by simp
  have "map (\<lambda>d. (source d, target d, weight d)) (edge_elements els) = []"
    using snapshot_edges[OF ge assms] by simp
  then show "edge_elements els = []" by simp
  have "map nd_id (node_elements els) =
          filter (\<lambda>n. n \<in> set core) (active_nodes (collect_edges G mn core))"
    using snapshot_node_ids(1)[OF ge assms] by simp
  then show "distinct (map nd_id (node_elements els))"
    using distinct_active_collect_edges[of G mn core] by simp
next
  from timestamp_range_le(2)[OF assms] obtain e where "e \<in> set (g_edges G)" "ev_timestamp e = mn"
    by blast
  then have "e \<in> set (filter (\<lambda>e. ev_timestamp e \<le> mn) (g_edges G))" by simp
  then show "edges_up_to_timestamp (collect_edges G mn core) \<noteq> []"
    unfolding up_to_collect_edges by force
qed

theorem minimum_cutoff_core_only_witness:
  "timestamp_range G_example = Inr (1, 4) \<and> wf_graph G_example \<and>
   set [''A''] \<subseteq> set (node_ids G_example) \<and>
   get_elements G_example 1 [''A''] None =
     Inr [node_example ''A'' (225 / 2) True None None (0, 255, 0) 0] \<and>
   edges_up_to_timestamp (collect_edges G_example 1 [''A'']) = [ev ''B'' ''A'' 1] \<and>
   (\<exists>els. get_elements G_example 1 [''A''] None = Inr els \<and> snapshot_nodes els = set [''A''] \<and>
          edge_elements els = [])"
proof -
  have wf: "wf_graph G_example" by code_simp
  have core: "set [''A''] \<subseteq> set (node_ids G_example)" by code_simp
  have ge: "get_elements G_example 1 [''A''] None =
              Inr [node_example ''A'' (225 / 2) True None None (0, 255, 0) 0]" by code_simp
  have up: "edges_up_to_timestamp (collect_edges G_example 1 [''A'']) = [ev ''B'' ''A'' 1]"
    by code_simp
  from minimum_cutoff_core_only[OF example_range, of "[''A'']" None]
  show ?thesis using example_range wf core ge up by auto
qed

section \<open>Connection strength, globally and per snapshot\<close>

lemma directed_counts_add:
  "n \<noteq> c \<Longrightarrow>
     length (filter (\<lambda>e. ev_source e = n \<and> ev_target e = c) es) +
     length (filter (\<lambda>e. ev_source e = c \<and> ev_target e = n) es) =
     length (filter (\<lambda>e. (ev_source e = n \<and> ev_target e = c) \<or> (ev_source e = c \<and> ev_target e = n)) es)"
  by (induction es) auto

lemma get_edge_data_len_sum:
  "n \<noteq> c \<Longrightarrow> get_edge_data_len G n c + get_edge_data_len G c n = event_count G n c"
  unfolding get_edge_data_len_def event_count_def by (rule directed_counts_add)

text \<open>The global ranking gives every non-core node the smallest number of events that it has with
  a core node, in both directions; 0 as soon as one core node has no event with it.\<close>

lemma global_strength_min:
  assumes "(n, s) \<in> set (calculate_connection_strength G core)"
  shows "n \<in> set (node_ids G) - set core"
    and "core \<noteq> [] \<Longrightarrow> s = Min ((\<lambda>c. event_count G n c) ` set core)"
    and "c \<in> set core \<Longrightarrow> event_count G n c = 0 \<Longrightarrow> s = 0"
proof -
  from assms have n: "n \<in> set (node_ids G)" "n \<notin> set core"
    and s: "s = min_or_zero (map (\<lambda>c. get_edge_data_len G n c + get_edge_data_len G c n) core)"
    by (auto simp: calculate_connection_strength_def)
  show "n \<in> set (node_ids G) - set core" using n by simp
  have eq: "map (\<lambda>c. get_edge_data_len G n c + get_edge_data_len G c n) core =
            map (\<lambda>c. event_count G n c) core"
  proof (rule map_cong)
    fix c assume "c \<in> set core"
    then have "n \<noteq> c" using n by auto
    then show "get_edge_data_len G n c + get_edge_data_len G c n = event_count G n c"
      by (rule get_edge_data_len_sum)
  qed simp
  show "s = Min ((\<lambda>c. event_count G n c) ` set core)" if "core \<noteq> []"
    using that s eq min_or_zero_Min[of "map (\<lambda>c. event_count G n c) core"] by simp
  show "s = 0" if "c \<in> set core" "event_count G n c = 0"
  proof -
    have "0 \<in> set (map (\<lambda>c. event_count G n c) core)" using that by force
    then show ?thesis using s eq min_or_zero_zero by simp
  qed
qed

text \<open>The local ranking of a snapshot never exceeds 1: the temporary graph has no parallel edges.\<close>

lemma local_strength_at_most_one:
  assumes "(n, s) \<in> set (local_ranking G ts core)"
  shows "s \<le> 1"
    and "s = 1 \<longleftrightarrow> core \<noteq> [] \<and> (\<forall>c \<in> set core. 0 < pair_count (g_edges G) ts n c)"
proof -
  let ?tG = "snapshot_graph G ts core"
  let ?xs = "map (\<lambda>c. if has_edge ?tG n c then number_of_edges ?tG n c else 0) core"
  from assms have s: "s = min_or_zero ?xs"
    by (auto simp: local_ranking_def local_connection_strength_def)
  have xs: "?xs = map (\<lambda>c. if 0 < pair_count (g_edges G) ts n c then 1 else 0) core"
    by (rule map_cong) (auto simp: number_of_edges_def has_edge_snapshot_graph)
  show "s \<le> 1" and "s = 1 \<longleftrightarrow> core \<noteq> [] \<and> (\<forall>c \<in> set core. 0 < pair_count (g_edges G) ts n c)"
  proof -
    show "s \<le> 1"
    proof (cases "core = []")
      case True
      then show ?thesis using s by (simp add: min_or_zero_def)
    next
      case False
      then obtain c where c: "c \<in> set core" by (cases core) auto
      have ne: "?xs \<noteq> []" using False by simp
      have "Min (set ?xs) \<le> (if 0 < pair_count (g_edges G) ts n c then 1 else 0)"
        unfolding xs using c by (intro Min_le) auto
      then show ?thesis using s min_or_zero_Min[OF ne] by (auto split: if_splits)
    qed
    show "s = 1 \<longleftrightarrow> core \<noteq> [] \<and> (\<forall>c \<in> set core. 0 < pair_count (g_edges G) ts n c)"
    proof (cases "core = []")
      case True
      then show ?thesis using s by (simp add: min_or_zero_def)
    next
      case False
      have ne: "?xs \<noteq> []" using False by simp
      have fin: "finite (set ?xs)" by simp
      have "s = 1 \<longleftrightarrow> (\<forall>x \<in> set ?xs. 1 \<le> x)"
      proof
        assume "s = 1"
        then have "1 \<le> Min (set ?xs)" using s min_or_zero_Min[OF ne] by simp
        then show "\<forall>x \<in> set ?xs. 1 \<le> x" using fin ne by (simp add: Min_ge_iff del: set_map)
      next
        assume "\<forall>x \<in> set ?xs. 1 \<le> x"
        then have "1 \<le> Min (set ?xs)" using fin ne by (simp add: Min_ge_iff del: set_map)
        then have "1 \<le> s" using s min_or_zero_Min[OF ne] by simp
        moreover note \<open>s \<le> 1\<close>
        ultimately show "s = 1" by simp
      qed
      also have "\<dots> \<longleftrightarrow> (\<forall>c \<in> set core. 0 < pair_count (g_edges G) ts n c)"
        unfolding xs by auto
      finally show ?thesis using False by simp
    qed
  qed
qed

text \<open>
  C1. The connection strength of a non-core node is meant to be, at both scopes, the minimum over
  the core nodes of the number of events between the node and the core node. The global ranking
  (\<open>calculate_connection_strength\<close>) computes that: with core \<open>A\<close>, node \<open>X\<close> of \<open>G_strength\<close> has
  three events with \<open>A\<close> and strength 3; with \<open>B\<close> as a second core node it has strength 0. The
  ranking inside \<open>get_elements\<close> asks the temporary graph, which has no parallel edges, for
  \<open>number_of_edges\<close>: at cutoff 4, where all three events between \<open>X\<close> and \<open>A\<close> qualify, it gives
  \<open>X\<close> the strength 1 and cannot tell it from \<open>B\<close>, which has a single event with \<open>A\<close>.
\<close>

theorem local_strength_collapses:
  "event_count G_strength ''X'' ''A'' = 3 \<and>
   calculate_connection_strength G_strength [''A''] = [(''B'', 1), (''X'', 3)] \<and>
   calculate_connection_strength G_strength [''A'', ''B''] = [(''X'', 0)] \<and>
   pair_count (g_edges G_strength) 4 ''X'' ''A'' = 3 \<and>
   local_ranking G_strength 4 [''A''] = [(''X'', 1), (''B'', 1)]"
  by code_simp

section \<open>Core ids that are not nodes of the graph\<close>

lemma filter_graph_nodes: "set (node_ids (filter_graph G core)) \<subseteq> set (node_ids G)"
  by (auto simp: filter_graph_def filter_graph_top_def subgraph_def node_ids_def Let_def)

text \<open>Whenever some core id is not a node of the graph that \<open>get_elements\<close> receives and the
  graph has an event, the node loop raises \<open>KeyError\<close>.\<close>

lemma missing_core_KeyError:
  assumes "c \<in> set core" "c \<notin> set (node_ids G)" "g_edges G \<noteq> []"
  shows "\<exists>k. get_elements G ts core tap = Inl (KeyError k)"
proof -
  from timestamp_range_total[OF assms(3)] obtain mn mx where tr: "timestamp_range G = Inr (mn, mx)"
    by blast
  have "c \<in> set (active_nodes (collect_edges G ts core))" using assms(1) core_active by blast
  from snapshot_node_elements_KeyError[OF this assms(2)] obtain k where
    "snapshot_node_elements G ts core = Inl (KeyError k)" by blast
  then show ?thesis using tr by (simp add: get_elements_unfold)
qed

text \<open>
  C8. A core id that is not a node of the graph is meant to be kept as an isolated core node
  with default attributes. \<open>filter_graph\<close> returns a subgraph of \<open>G\<close>, so the id \<open>Z\<close> is not kept,
  and \<open>get_elements\<close>, which puts every core id among the active nodes, then looks \<open>Z\<close> up in
  \<open>G.nodes\<close> and raises \<open>KeyError\<close> instead of returning a snapshot.
\<close>

theorem missing_core_node_fails:
  "''Z'' \<notin> set (node_ids G_example) \<and>
   node_ids (filter_graph G_example [''A'', ''Z'']) = [''A'', ''B'', ''C'', ''D''] \<and>
   active_nodes (collect_edges (filter_graph G_example [''A'', ''Z'']) 4 [''A'', ''Z'']) =
     [''A'', ''Z'', ''B'', ''C'', ''D''] \<and>
   get_elements (filter_graph G_example [''A'', ''Z'']) 4 [''A'', ''Z''] None = Inl (KeyError ''Z'')"
  by code_simp

section \<open>A focal node outside the snapshot\<close>

text \<open>When the focal node is not an active node of the snapshot and there is a core node,
  \<open>nx.shortest_path\<close> raises \<open>NodeNotFound\<close>, which the handler for \<open>NetworkXNoPath\<close> does not
  catch.\<close>

lemma absent_focal_NodeNotFound:
  assumes "f \<notin> set (active_nodes (collect_edges G ts core))" "core \<noteq> []"
    and "g_edges G \<noteq> []" "wf_graph G" "set core \<subseteq> set (node_ids G)"
  shows "get_elements G ts core (Some f) = Inl (NodeNotFound f)"
proof -
  from timestamp_range_total[OF assms(3)] obtain mn mx where tr: "timestamp_range G = Inr (mn, mx)"
    by blast
  have "set (active_nodes (collect_edges G ts core)) \<subseteq> set (node_ids G)"
    using assms(4,5) by (auto simp: active_collect_edges wf_graph_def list_all_iff)
  from snapshot_node_elements_total[OF this] obtain node_els where
    ne: "snapshot_node_elements G ts core = Inr node_els" by blast
  have "f \<notin> set (sg_nodes (snapshot_graph G ts core))"
    using assms(1) by (simp add: sg_nodes_snapshot_graph)
  from highlight_paths_absent[OF this assms(2)]
  have "\<And>els. highlight (snapshot_graph G ts core) core (Some f) els = Inl (NodeNotFound f)"
    by (simp add: highlight_def)
  then show ?thesis using tr ne by (simp add: get_elements_unfold)
qed

text \<open>
  C9. The highlight computation is meant never to fail, whatever the focal node. A focal node
  from which no core node can be reached is handled: in \<open>G_disc\<close> at cutoff 2 the focal node \<open>D\<close>
  is active but in another component than the core node \<open>A\<close>, and the snapshot is returned with
  nothing highlighted. A focal node that is not among the active nodes is not: in the example
  graph at cutoff 2 the node \<open>D\<close>, selected at a later cutoff, is not active, and \<open>get_elements\<close>
  ends with \<open>NodeNotFound\<close>.
\<close>

theorem absent_focal_node_fails:
  "active_nodes (collect_edges G_example 2 [''A'']) = [''A'', ''B'', ''C''] \<and>
   get_elements G_example 2 [''A''] (Some ''D'') = Inl (NodeNotFound ''D'') \<and>
   active_nodes (collect_edges G_disc 2 [''A'']) = [''A'', ''B'', ''D'', ''C''] \<and>
   (case get_elements G_disc 2 [''A''] (Some ''D'') of
      Inl e \<Rightarrow> False
    | Inr els \<Rightarrow>
        map (\<lambda>d. (nd_id d, node_to_core d)) (node_elements els) =
          [(''A'', Some False), (''B'', Some False), (''D'', Some False), (''C'', Some False)] \<and>
        map (\<lambda>d. (source d, target d, edge_to_core d)) (edge_elements els) =
          [(''B'', ''A'', False), (''D'', ''C'', False)])"
  by code_simp

section \<open>Rank selection\<close>

lemma normalize_value_ge_lower:
  assumes "mn \<le> ts" "mn \<le> mx" "lo \<le> hi"
  shows "lo \<le> normalize_value ts mn mx lo hi"
proof (cases "mx = mn")
  case True
  then show ?thesis by (simp add: normalize_value_def)
next
  case False
  then have "0 < mx - mn" using assms(2) by simp
  then have "0 \<le> (ts - mn) / (mx - mn)" using assms(1) by simp
  moreover have "0 \<le> hi - lo" using assms(3) by simp
  ultimately have "0 \<le> (ts - mn) / (mx - mn) * (hi - lo)" by (rule mult_nonneg_nonneg)
  then show ?thesis using False by (simp add: normalize_value_def)
qed

lemma highlight_count_spec:
  assumes "mn \<le> ts" "mn \<le> mx"
  shows "highlight_count ts mn mx = spec_highlight_count ts mn mx"
    and "1 \<le> highlight_count ts mn mx" and "highlight_count ts mn mx \<le> 10"
proof -
  let ?v = "normalize_value ts mn mx 1 10"
  have v: "1 \<le> ?v" using normalize_value_ge_lower[OF assms, of 1 10] by simp
  then have fl: "1 \<le> \<lfloor>?v\<rfloor>" by (simp add: le_floor_iff)
  have pi: "py_int ?v = \<lfloor>?v\<rfloor>" using v by (simp add: py_int_def)
  show "highlight_count ts mn mx = spec_highlight_count ts mn mx"
    using fl pi by (simp add: highlight_count_def spec_highlight_count_def clamp_def)
  show "1 \<le> highlight_count ts mn mx" using fl pi by (simp add: highlight_count_def)
  show "highlight_count ts mn mx \<le> 10" by (simp add: highlight_count_def)
qed

lemma distinct_sg_nodes_foldl_add_node:
  "distinct (sg_nodes g) \<Longrightarrow> distinct (sg_nodes (foldl add_node g ns))"
  by (induction ns arbitrary: g) (auto simp: add_node_def distinct_set_add)

lemma distinct_sg_nodes_add_edge: "distinct (sg_nodes g) \<Longrightarrow> distinct (sg_nodes (add_edge g e))"
  by (auto simp: add_edge_def add_node_def Let_def distinct_set_add)

lemma distinct_sg_nodes_foldl_add_edge:
  "distinct (sg_nodes g) \<Longrightarrow> distinct (sg_nodes (foldl add_edge g es))"
  by (induction es arbitrary: g) (auto simp: distinct_sg_nodes_add_edge)

lemma distinct_sg_nodes_snapshot_graph: "distinct (sg_nodes (snapshot_graph G ts core))"
  by (simp add: snapshot_graph_def Let_def temp_graph_def distinct_sg_nodes_foldl_add_edge
        distinct_sg_nodes_foldl_add_node)

lemma local_ranking_keys:
  "map fst (local_ranking G ts core) =
     filter (\<lambda>n. n \<notin> set core) (sg_nodes (snapshot_graph G ts core))"
  by (simp add: local_ranking_def local_connection_strength_def comp_def)

lemma local_ranking_distinct: "distinct (map fst (local_ranking G ts core))"
  by (simp add: local_ranking_keys distinct_sg_nodes_snapshot_graph)

lemma local_ranking_key_set:
  "fst ` set (local_ranking G ts core) = set (active_nodes (collect_edges G ts core)) - set core"
proof -
  have "fst ` set (local_ranking G ts core) = set (map fst (local_ranking G ts core))" by simp
  also have "\<dots> = set (active_nodes (collect_edges G ts core)) - set core"
    unfolding local_ranking_keys by (auto simp: sg_nodes_snapshot_graph)
  finally show ?thesis .
qed

lemma sorted_take_drop:
  assumes "sorted (map f xs)" "x \<in> set (take n xs)" "y \<in> set (drop n xs)"
  shows "f x \<le> f y"
proof -
  have "sorted (map f (take n xs) @ map f (drop n xs))"
    using assms(1) by (metis append_take_drop_id map_append)
  then show ?thesis using assms(2,3) by (auto simp: sorted_append)
qed

text \<open>The first \<open>n\<close> keys of a dictionary sorted by descending value: every key taken has a value at
  least as large as every key left out.\<close>

lemma take_sorted_desc:
  assumes "distinct (map fst d)" "(x, sx) \<in> set d" "(y, sy) \<in> set d"
    and "x \<in> set (take n (sorted_desc d))" "y \<notin> set (take n (sorted_desc d))"
  shows "sy \<le> sx"
proof -
  let ?key = "\<lambda>(n :: node_id, s :: nat). - int s"
  let ?L = "sort_key ?key d"
  have L: "set ?L = set d" by simp
  have dL: "distinct (map fst ?L)"
    using assms(1) by (simp add: distinct_map)
  have tk: "take n (sorted_desc d) = map fst (take n ?L)"
    by (simp add: sorted_desc_def take_map)
  from assms(4) obtain sx' where x': "(x, sx') \<in> set (take n ?L)" unfolding tk by auto
  then have "(x, sx') \<in> set ?L" by (rule in_set_takeD)
  then have "sx' = sx" using assms(1,2) L by (metis eq_key_imp_eq_value)
  then have x: "(x, sx) \<in> set (take n ?L)" using x' by simp
  have split: "set ?L = set (take n ?L) \<union> set (drop n ?L)"
    by (metis append_take_drop_id set_append)
  have "(y, sy) \<in> set ?L" using assms(3) L by simp
  moreover have "(y, sy) \<notin> set (take n ?L)" using assms(5) unfolding tk by force
  ultimately have y: "(y, sy) \<in> set (drop n ?L)" unfolding split by blast
  have "sorted (map ?key ?L)" by (rule sorted_sort_key)
  from sorted_take_drop[OF this x y] show ?thesis by simp
qed

lemma set_sorted_desc: "set (sorted_desc d) = fst ` set d"
  by (simp add: sorted_desc_def)

lemma length_sorted_desc: "length (sorted_desc d) = length d"
  by (simp add: sorted_desc_def)

lemma snapshot_edges_None:
  assumes "get_elements G ts core None = Inr els" "timestamp_range G = Inr (mn, mx)"
  shows "edge_elements els = (if mn < ts then map snd (ranked_edges G ts core mn mx) else [])"
proof -
  from get_elements_InrD[OF assms(1)] assms(2) obtain ds hl where
    hl: "highlight (snapshot_graph G ts core) core None
             (map Node ds @ (if mn < ts then map (\<lambda>(k, d). Edge d) (ranked_edges G ts core mn mx)
                             else [])) = Inr hl"
    and els: "els = (if ts \<le> mn then filter is_core_element hl else hl)"
    by auto
  have "edge_elements hl = (if mn < ts then map snd (ranked_edges G ts core mn mx) else [])"
    using hl by (auto simp: highlight_None edge_elements_simps elements_of_nodes elements_of_edges)
  then show ?thesis using els by (auto simp: edge_elements_filter_core)
qed

lemma rank_range: "timestamp_range G_rank = Inr (1, 100)"
  by code_simp

lemma rank_snapshot: "get_elements G_rank 2 [''A''] None = Inr snap_rank"
  by code_simp

text \<open>
  C5. For a cutoff not before the first event, the highlight count computed by the program is
  \<open>clamp(floor(linearRescale(cutoff, globalMin, globalMax, 1, 10)), 0, 10)\<close>; the selected nodes
  are the first \<open>N\<close> of the local ranking in descending order: non-core active nodes, as many as
  \<open>N\<close> allows, none of them ranked below a node left out. After rank selection, and in the snapshot
  returned when no focal node is given, an aggregated edge has \<open>edge_to_core\<close> set exactly when
  one end point is a selected node and the other a core node.
\<close>

theorem rank_selection:
  assumes "timestamp_range G = Inr (mn, mx)" and "mn \<le> ts"
  shows "highlight_count ts mn mx = spec_highlight_count ts mn mx \<and>
         top_nodes G ts core mn mx =
           take (nat (spec_highlight_count ts mn mx)) (sorted_desc (local_ranking G ts core)) \<and>
         set (top_nodes G ts core mn mx) \<subseteq> set (active_nodes (collect_edges G ts core)) - set core \<and>
         length (top_nodes G ts core mn mx) =
           min (nat (spec_highlight_count ts mn mx))
               (card (set (active_nodes (collect_edges G ts core)) - set core)) \<and>
         (\<forall>(x, sx) \<in> set (local_ranking G ts core). \<forall>(y, sy) \<in> set (local_ranking G ts core).
            x \<in> set (top_nodes G ts core mn mx) \<and> y \<notin> set (top_nodes G ts core mn mx) \<longrightarrow> sy \<le> sx) \<and>
         (\<forall>(k, d) \<in> set (ranked_edges G ts core mn mx).
            edge_to_core d \<longleftrightarrow>
              (source d \<in> set (top_nodes G ts core mn mx) \<and> target d \<in> set core) \<or>
              (target d \<in> set (top_nodes G ts core mn mx) \<and> source d \<in> set core)) \<and>
         (\<forall>els. get_elements G ts core None = Inr els \<longrightarrow>
            (\<forall>d \<in> set (edge_elements els).
               edge_to_core d \<longleftrightarrow>
                 (source d \<in> set (top_nodes G ts core mn mx) \<and> target d \<in> set core) \<or>
                 (target d \<in> set (top_nodes G ts core mn mx) \<and> source d \<in> set core)))"
proof -
  let ?top = "top_nodes G ts core mn mx"
  let ?rk = "local_ranking G ts core"
  let ?N = "spec_highlight_count ts mn mx"
  have mm: "mn \<le> mx" by (rule timestamp_range_le(1)[OF assms(1)])
  note hc = highlight_count_spec[OF assms(2) mm]
  have top: "?top = take (nat ?N) (sorted_desc ?rk)"
    using hc by (simp add: top_nodes_def py_take_def)
  have sub: "set ?top \<subseteq> set (active_nodes (collect_edges G ts core)) - set core"
    unfolding top using set_take_subset[of "nat ?N" "sorted_desc ?rk"]
    by (simp add: set_sorted_desc local_ranking_key_set)
  have "length ?rk = length (map fst ?rk)" by simp
  also have "\<dots> = card (set (map fst ?rk))"
    using local_ranking_distinct[of G ts core] by (simp add: distinct_card del: set_map)
  also have "\<dots> = card (set (active_nodes (collect_edges G ts core)) - set core)"
    using local_ranking_key_set[of G ts core] by simp
  finally have len: "length ?top = min (nat ?N) (card (set (active_nodes (collect_edges G ts core)) - set core))"
    unfolding top by (simp add: length_sorted_desc min.commute)
  have order: "\<forall>(x, sx) \<in> set ?rk. \<forall>(y, sy) \<in> set ?rk. x \<in> set ?top \<and> y \<notin> set ?top \<longrightarrow> sy \<le> sx"
    unfolding top using take_sorted_desc[OF local_ranking_distinct[of G ts core]] by blast
  have flags: "\<forall>(k, d) \<in> set (ranked_edges G ts core mn mx).
            edge_to_core d \<longleftrightarrow>
              (source d \<in> set ?top \<and> target d \<in> set core) \<or> (target d \<in> set ?top \<and> source d \<in> set core)"
    using ranked_edges_flag[of _ _ G ts core mn mx] by (auto simp: spotlight_def)
  have snap: "\<forall>els. get_elements G ts core None = Inr els \<longrightarrow>
            (\<forall>d \<in> set (edge_elements els).
               edge_to_core d \<longleftrightarrow>
                 (source d \<in> set ?top \<and> target d \<in> set core) \<or> (target d \<in> set ?top \<and> source d \<in> set core))"
  proof (intro allI impI ballI)
    fix els d
    assume ge: "get_elements G ts core None = Inr els" and d: "d \<in> set (edge_elements els)"
    from d snapshot_edges_None[OF ge assms(1)] have "d \<in> snd ` set (ranked_edges G ts core mn mx)"
      by (auto split: if_splits)
    then obtain k where "(k, d) \<in> set (ranked_edges G ts core mn mx)" by auto
    then show "edge_to_core d \<longleftrightarrow>
                 (source d \<in> set ?top \<and> target d \<in> set core) \<or> (target d \<in> set ?top \<and> source d \<in> set core)"
      using flags by blast
  qed
  show ?thesis using hc(1) top sub len order flags snap by blast
qed

theorem rank_selection_witness:
  "timestamp_range G_rank = Inr (1, 100) \<and> (1::rat) \<le> 2 \<and>
   get_elements G_rank 2 [''A''] None = Inr snap_rank \<and>
   highlight_count 2 1 100 = 1 \<and> spec_highlight_count 2 1 100 = 1 \<and>
   local_ranking G_rank 2 [''A''] = [(''B'', 0), (''C'', 1), (''D'', 1), (''E'', 0)] \<and>
   top_nodes G_rank 2 [''A''] 1 100 = [''C''] \<and>
   map (\<lambda>d. (source d, target d, edge_to_core d)) (edge_elements snap_rank) =
     [(''B'', ''C'', False), (''C'', ''A'', True), (''D'', ''A'', False), (''E'', ''B'', False)] \<and>
   list_all (\<lambda>d. edge_to_core d \<longleftrightarrow>
                   (source d \<in> set (top_nodes G_rank 2 [''A''] 1 100) \<and> target d \<in> set [''A'']) \<or>
                   (target d \<in> set (top_nodes G_rank 2 [''A''] 1 100) \<and> source d \<in> set [''A'']))
     (edge_elements snap_rank)"
proof -
  have le: "(1::rat) \<le> 2" by simp
  have hc: "highlight_count 2 1 100 = 1" by code_simp
  have rk: "local_ranking G_rank 2 [''A''] = [(''B'', 0), (''C'', 1), (''D'', 1), (''E'', 0)]"
    by code_simp
  have tn: "top_nodes G_rank 2 [''A''] 1 100 = [''C'']" by code_simp
  have ed: "map (\<lambda>d. (source d, target d, edge_to_core d)) (edge_elements snap_rank) =
     [(''B'', ''C'', False), (''C'', ''A'', True), (''D'', ''A'', False), (''E'', ''B'', False)]"
    by code_simp
  from rank_selection[OF rank_range le, of "[''A'']"]
  have "highlight_count 2 1 100 = spec_highlight_count 2 1 100"
    and "\<forall>els. get_elements G_rank 2 [''A''] None = Inr els \<longrightarrow>
            (\<forall>d \<in> set (edge_elements els).
               edge_to_core d \<longleftrightarrow>
                 (source d \<in> set (top_nodes G_rank 2 [''A''] 1 100) \<and> target d \<in> set [''A'']) \<or>
                 (target d \<in> set (top_nodes G_rank 2 [''A''] 1 100) \<and> source d \<in> set [''A'']))"
    by blast+
  then show ?thesis using rank_range rank_snapshot hc rk tn ed le
    by (simp add: list_all_iff)
qed

section \<open>Paths found by the highlighter\<close>

lemma set_neighbors: "set (neighbors g u) = {w. has_edge g u w}"
proof (intro set_eqI iffI)
  fix w assume "w \<in> set (neighbors g u)"
  then obtain a b where ab: "(a, b) \<in> set (sg_edges g)" "a = u \<or> b = u"
    "w = (if a = u then b else a)"
    by (auto simp: neighbors_def)
  then have "(u, w) \<in> set (sg_edges g) \<or> (w, u) \<in> set (sg_edges g)"
    by (cases "a = u") auto
  then show "w \<in> {w. has_edge g u w}" by (simp add: has_edge_def)
next
  fix w assume "w \<in> {w. has_edge g u w}"
  then consider (f) "(u, w) \<in> set (sg_edges g)" | (b) "(w, u) \<in> set (sg_edges g)"
    by (auto simp: has_edge_def)
  then show "w \<in> set (neighbors g u)"
  proof cases
    case f
    then have "(u, w) \<in> set (filter (\<lambda>(a, b). a = u \<or> b = u) (sg_edges g))" by simp
    then have "(\<lambda>(a, b). if a = u then b else a) (u, w) \<in> set (neighbors g u)"
      unfolding neighbors_def set_map by (rule imageI)
    then show ?thesis by simp
  next
    case b
    then have "(w, u) \<in> set (filter (\<lambda>(a, b). a = u \<or> b = u) (sg_edges g))" by simp
    then have "(\<lambda>(a, b). if a = u then b else a) (w, u) \<in> set (neighbors g u)"
      unfolding neighbors_def set_map by (rule imageI)
    then show ?thesis by (cases "w = u") simp_all
  qed
qed

lemma zip_snoc_path:
  "p \<noteq> [] \<Longrightarrow> zip (butlast (p @ [w])) (tl (p @ [w])) = zip (butlast p) (tl p) @ [(last p, w)]"
proof (induction p)
  case Nil
  then show ?case by simp
next
  case (Cons x p)
  show ?case
  proof (cases p)
    case Nil
    then show ?thesis by simp
  next
    case (Cons y ys)
    then show ?thesis using Cons.IH by (simp add: butlast_append)
  qed
qed

lemma walk_from_extend:
  assumes "list_all (walk_from g s) ps"
  shows "list_all (walk_from g s) (extend_paths g ps)"
proof -
  { fix p w assume p: "walk_from g s p" and w: "w \<in> set (neighbors g (last p))"
    have ne: "p \<noteq> []" using p by (simp add: walk_from_def)
    have "has_edge g (last p) w" using w by (simp add: set_neighbors)
    then have "walk_from g s (p @ [w])"
      using p ne unfolding walk_from_def zip_snoc_path[OF ne] by simp }
  then show ?thesis using assms by (auto simp: extend_paths_def list_all_iff)
qed

lemma bfs_paths_walks:
  assumes "list_all (walk_from g s) ps"
  shows "list_all (\<lambda>p. walk_from g s p \<and> last p = t) (bfs_paths g t k ps)"
  using assms
proof (induction k arbitrary: ps)
  case 0
  then show ?case by (auto simp: list_all_iff)
next
  case (Suc k)
  show ?case
  proof (cases "filter (\<lambda>p. last p = t) ps = []")
    case True
    then show ?thesis using Suc.IH[OF walk_from_extend[OF Suc.prems]] by (simp add: Let_def)
  next
    case False
    then show ?thesis using Suc.prems by (auto simp: Let_def list_all_iff)
  qed
qed

lemma shortest_path_walk:
  assumes "shortest_path g s t = Inr p"
  shows "walk_from g s p" and "last p = t"
proof -
  from assms obtain ps where ps: "all_shortest_paths g s t = p # ps"
    by (auto simp: shortest_path_def split: if_splits list.splits)
  have "list_all (walk_from g s) [[s]]" by (simp add: walk_from_def)
  from bfs_paths_walks[OF this, of t "length (sg_nodes g)"] ps
  show "walk_from g s p" and "last p = t" by (simp_all add: all_shortest_paths_def)
qed

lemma found_paths_walks:
  assumes "p \<in> set (found_paths g f core)"
  shows "walk_from g f p \<and> last p \<in> set core"
proof -
  from assms obtain c where "c \<in> set core" "shortest_path g f c = Inr p"
    by (auto simp: found_paths_def split: sum.splits)
  then show ?thesis using shortest_path_walk by blast
qed

lemma snapshot_Some:
  assumes "get_elements G ts core (Some f) = Inr els"
  shows "\<exists>hn he. highlight_paths (snapshot_graph G ts core) f core ([], []) = Inr (hn, he) \<and>
           (\<forall>d \<in> set (node_elements els). node_to_core d = Some (nd_id d \<in> set hn)) \<and>
           (\<forall>d \<in> set (edge_elements els).
              edge_to_core d \<longleftrightarrow> (source d, target d) \<in> set he \<or> (target d, source d) \<in> set he)"
proof -
  from get_elements_InrD[OF assms] obtain mn mx ds hl where
    hl: "highlight (snapshot_graph G ts core) core (Some f)
             (map Node ds @ (if mn < ts then map (\<lambda>(k, d). Edge d) (ranked_edges G ts core mn mx)
                             else [])) = Inr hl"
    and els: "els = (if ts \<le> mn then filter is_core_element hl else hl)"
    by blast
  let ?cyto = "map Node ds @ (if mn < ts then map (\<lambda>(k, d). Edge d) (ranked_edges G ts core mn mx)
                             else [])"
  from highlight_Some_Inr[OF hl] obtain hn he where
    hp: "highlight_paths (snapshot_graph G ts core) f core ([], []) = Inr (hn, he)"
    and hl_eq: "hl = map (apply_highlight hn he) ?cyto" by blast
  have n: "\<forall>d \<in> set (node_elements hl). node_to_core d = Some (nd_id d \<in> set hn)"
    unfolding hl_eq node_elements_apply_highlight by auto
  have e: "\<forall>d \<in> set (edge_elements hl).
              edge_to_core d \<longleftrightarrow> (source d, target d) \<in> set he \<or> (target d, source d) \<in> set he"
    unfolding hl_eq edge_elements_apply_highlight by auto
  have "set (node_elements els) \<subseteq> set (node_elements hl)"
    using els by (auto simp: node_elements_filter_core)
  moreover have "set (edge_elements els) \<subseteq> set (edge_elements hl)"
    using els by (auto simp: edge_elements_filter_core)
  ultimately show ?thesis using hp n e by blast
qed

lemma example_focal_snapshot: "get_elements G_example 4 [''A''] (Some ''D'') = Inr snap_example_focal"
  by code_simp

text \<open>
  C6. With a focal node, a node of the snapshot is marked on-path exactly when it lies on one of
  the paths found from the focal node to the core nodes, and an edge has \<open>edge_to_core\<close> set
  exactly when one of its two orientations is a hop of such a path, whatever the rank selector had
  set. Every found path is a walk of the snapshot's graph from the focal node to a core node. In
  the example with core \<open>A\<close> and focal node \<open>D\<close> the one path is \<open>D, C, A\<close>: the nodes \<open>D\<close>, \<open>C\<close>, \<open>A\<close>
  are on-path, the edges \<open>C-D\<close> and \<open>C-A\<close> are flagged and \<open>B-C\<close> is not; \<open>B-A\<close>, flagged without
  focal node, is not flagged either.
\<close>

theorem focal_highlighting:
  "(\<forall>G ts core f els.
      get_elements G ts core (Some f) = Inr els \<longrightarrow>
        (\<forall>d \<in> set (node_elements els).
           node_to_core d = Some (nd_id d \<in> path_nodes (found_paths (snapshot_graph G ts core) f core))) \<and>
        (\<forall>d \<in> set (edge_elements els).
           edge_to_core d \<longleftrightarrow>
             (source d, target d) \<in> path_edges (found_paths (snapshot_graph G ts core) f core) \<or>
             (target d, source d) \<in> path_edges (found_paths (snapshot_graph G ts core) f core)) \<and>
        (\<forall>p \<in> set (found_paths (snapshot_graph G ts core) f core).
           walk_from (snapshot_graph G ts core) f p \<and> last p \<in> set core)) \<and>
   found_paths (snapshot_graph G_example 4 [''A'']) ''D'' [''A''] = [[''D'', ''C'', ''A'']] \<and>
   get_elements G_example 4 [''A''] (Some ''D'') = Inr snap_example_focal \<and>
   map (\<lambda>d. (nd_id d, node_to_core d)) (node_elements snap_example_focal) =
     [(''A'', Some True), (''B'', Some False), (''C'', Some True), (''D'', Some True)] \<and>
   map (\<lambda>d. (source d, target d, edge_to_core d)) (edge_elements snap_example_focal) =
     [(''B'', ''A'', False), (''C'', ''A'', True), (''C'', ''B'', False), (''D'', ''C'', True)] \<and>
   get_elements G_example 4 [''A''] None = Inr snap_example \<and>
   map (\<lambda>d. (source d, target d, edge_to_core d)) (edge_elements snap_example) =
     [(''B'', ''A'', True), (''C'', ''A'', True), (''C'', ''B'', False), (''D'', ''C'', False)]"
proof (intro conjI allI impI)
  fix G ts core f els
  assume ge: "get_elements G ts core (Some f) = Inr els"
  let ?fp = "found_paths (snapshot_graph G ts core) f core"
  from snapshot_Some[OF ge] obtain hn he where
    hp: "highlight_paths (snapshot_graph G ts core) f core ([], []) = Inr (hn, he)"
    and n: "\<forall>d \<in> set (node_elements els). node_to_core d = Some (nd_id d \<in> set hn)"
    and e: "\<forall>d \<in> set (edge_elements els).
              edge_to_core d \<longleftrightarrow> (source d, target d) \<in> set he \<or> (target d, source d) \<in> set he"
    by blast
  from highlight_paths_sets[OF hp] have sets: "set hn = path_nodes ?fp" "set he = path_edges ?fp"
    by simp_all
  show "\<forall>d \<in> set (node_elements els). node_to_core d = Some (nd_id d \<in> path_nodes ?fp)"
    using n sets by simp
  show "\<forall>d \<in> set (edge_elements els).
           edge_to_core d \<longleftrightarrow> (source d, target d) \<in> path_edges ?fp \<or> (target d, source d) \<in> path_edges ?fp"
    using e sets by simp
  show "\<forall>p \<in> set ?fp. walk_from (snapshot_graph G ts core) f p \<and> last p \<in> set core"
    using found_paths_walks by blast
next
  show "found_paths (snapshot_graph G_example 4 [''A'']) ''D'' [''A''] = [[''D'', ''C'', ''A'']]"
    by code_simp
  show "get_elements G_example 4 [''A''] (Some ''D'') = Inr snap_example_focal"
    by (rule example_focal_snapshot)
  show "map (\<lambda>d. (nd_id d, node_to_core d)) (node_elements snap_example_focal) =
     [(''A'', Some True), (''B'', Some False), (''C'', Some True), (''D'', Some True)]"
    by code_simp
  show "map (\<lambda>d. (source d, target d, edge_to_core d)) (edge_elements snap_example_focal) =
     [(''B'', ''A'', False), (''C'', ''A'', True), (''C'', ''B'', False), (''D'', ''C'', True)]"
    by code_simp
  show "get_elements G_example 4 [''A''] None = Inr snap_example" by (rule example_snapshot)
  show "map (\<lambda>d. (source d, target d, edge_to_core d)) (edge_elements snap_example) =
     [(''B'', ''A'', True), (''C'', ''A'', True), (''C'', ''B'', False), (''D'', ''C'', False)]"
    by code_simp
qed

theorem focal_highlighting_witness:
  "get_elements G_example 4 [''A''] (Some ''D'') = Inr snap_example_focal \<and>
   path_nodes (found_paths (snapshot_graph G_example 4 [''A'']) ''D'' [''A'']) = {''D'', ''C'', ''A''} \<and>
   path_edges (found_paths (snapshot_graph G_example 4 [''A'']) ''D'' [''A'']) =
     {(''D'', ''C''), (''C'', ''A'')} \<and>
   list_all (\<lambda>d. node_to_core d = Some (nd_id d \<in> {''D'', ''C'', ''A''}))
     (node_elements snap_example_focal) \<and>
   list_all (\<lambda>d. edge_to_core d \<longleftrightarrow>
                   (source d, target d) \<in> {(''D'', ''C''), (''C'', ''A'')} \<or>
                   (target d, source d) \<in> {(''D'', ''C''), (''C'', ''A'')})
     (edge_elements snap_example_focal)"
proof -
  have fp: "found_paths (snapshot_graph G_example 4 [''A'']) ''D'' [''A''] = [[''D'', ''C'', ''A'']]"
    by code_simp
  have pn: "path_nodes [[''D'', ''C'', ''A'']] = {''D'', ''C'', ''A''}"
    by (simp add: path_nodes_def)
  have pe: "path_edges [[''D'', ''C'', ''A'']] = {(''D'', ''C''), (''C'', ''A'')}"
    by (simp add: path_edges_def)
  from focal_highlighting have
    "(\<forall>d \<in> set (node_elements snap_example_focal).
        node_to_core d =
          Some (nd_id d \<in> path_nodes (found_paths (snapshot_graph G_example 4 [''A'']) ''D'' [''A'']))) \<and>
     (\<forall>d \<in> set (edge_elements snap_example_focal).
        edge_to_core d \<longleftrightarrow>
          (source d, target d) \<in> path_edges (found_paths (snapshot_graph G_example 4 [''A'']) ''D'' [''A'']) \<or>
          (target d, source d) \<in> path_edges (found_paths (snapshot_graph G_example 4 [''A'']) ''D'' [''A'']))"
    using example_focal_snapshot by blast
  then show ?thesis using example_focal_snapshot
    unfolding fp pn pe by (simp add: list_all_iff)
qed

section \<open>The core id list of a request\<close>

lemma strip_empty_iff: "strip s = [] \<longleftrightarrow> (\<forall>c \<in> set s. is_space c)"
proof -
  have "strip s = [] \<longleftrightarrow> (\<forall>c \<in> set (dropWhile is_space s). is_space c)"
    by (simp add: strip_def dropWhile_eq_Nil_conv)
  also have "\<dots> \<longleftrightarrow> dropWhile is_space s = []"
  proof
    assume a: "\<forall>c \<in> set (dropWhile is_space s). is_space c"
    show "dropWhile is_space s = []"
    proof (rule ccontr)
      assume ne: "dropWhile is_space s \<noteq> []"
      then have "\<not> is_space (hd (dropWhile is_space s))" by (rule hd_dropWhile)
      moreover have "hd (dropWhile is_space s) \<in> set (dropWhile is_space s)" using ne by simp
      ultimately show False using a by blast
    qed
  next
    assume "dropWhile is_space s = []"
    then show "\<forall>c \<in> set (dropWhile is_space s). is_space c"
      by (metis empty_iff empty_set)
  qed
  also have "\<dots> \<longleftrightarrow> (\<forall>c \<in> set s. is_space c)" by (simp add: dropWhile_eq_Nil_conv)
  finally show ?thesis .
qed

lemma split_on_chars: "\<Union> (set ` set (split_on c s)) = set s - {c}"
proof (induction s)
  case Nil
  then show ?case by simp
next
  case (Cons x xs)
  then show ?case by (cases "split_on c xs") auto
qed

lemma core_ids_empty_iff: "core_ids inp = [] \<longleftrightarrow> (\<forall>c \<in> set inp. c = CHR '','' \<or> is_space c)"
proof -
  have "core_ids inp = [] \<longleftrightarrow> (\<forall>w \<in> set (split_on (CHR '','') inp). \<forall>c \<in> set w. is_space c)"
    by (simp add: core_ids_def filter_empty_conv strip_empty_iff)
  also have "\<dots> \<longleftrightarrow> (\<forall>c \<in> \<Union> (set ` set (split_on (CHR '','') inp)). is_space c)" by blast
  also have "\<dots> \<longleftrightarrow> (\<forall>c \<in> set inp. c = CHR '','' \<or> is_space c)"
    unfolding split_on_chars by blast
  finally show ?thesis .
qed

text \<open>
  C10, as claimed: every request whose core id list is empty after trimming is rejected and no
  snapshot is produced. It is not: with a graph in the store and the input \<open>" , "\<close>, whose core id
  list is empty, \<open>update_elements\<close> at slider position 100 returns the snapshot of the whole
  graph, with all four accounts as non-core nodes and all four aggregated edges.
\<close>

theorem empty_core_snapshot_built:
  "core_ids '' , '' = [] \<and>
   (case update_elements 100 None
           (Some \<lparr> gd_graph = G_example, gd_min_timestamp = 1, gd_max_timestamp = 4 \<rparr>)
           (Some '' , '') of
      Inl e \<Rightarrow> False
    | Inr els \<Rightarrow>
        map (\<lambda>d. (nd_id d, is_core d)) (node_elements els) =
          [(''B'', False), (''A'', False), (''C'', False), (''D'', False)] \<and>
        map (\<lambda>d. (source d, target d, weight d)) (edge_elements els) =
          [(''B'', ''A'', 1), (''C'', ''A'', 1), (''C'', ''B'', 1), (''D'', ''C'', 1)])"
  by code_simp

text \<open>
  C10, amended: \<open>build_graph\<close> rejects a request without a click count or whose input is absent
  or the empty string: it leaves both outputs unchanged. The core id list is empty exactly when
  the input consists of commas and white space only; such a list is not checked. For a non-empty
  input of that kind \<open>build_graph\<close> asks the source provider for the empty list and stores the
  filtered graph unless fetching fails or the filtered graph has no event, in which case it leaves
  the store unchanged; it never surfaces an error. \<open>update_elements\<close> returns no elements while
  no graph is stored and otherwise builds the snapshot for the empty core set.
\<close>

theorem empty_core_request:
  "(\<forall>fetch n_clicks inp.
      build_graph fetch None inp = (no_update, no_update) \<and>
      build_graph fetch n_clicks None = (no_update, no_update) \<and>
      build_graph fetch n_clicks (Some []) = (no_update, no_update)) \<and>
   (\<forall>inp. core_ids inp = [] \<longleftrightarrow> (\<forall>c \<in> set inp. c = CHR '','' \<or> is_space c)) \<and>
   (\<forall>fetch n inp.
      core_ids inp = [] \<and> inp \<noteq> [] \<longrightarrow>
        fst (build_graph fetch (Some n) (Some inp)) =
          (case fetch [] of
             Inl e \<Rightarrow> no_update
           | Inr G \<Rightarrow>
               (case timestamp_range (filter_graph G []) of
                  Inl e \<Rightarrow> no_update
                | Inr (mn, mx) \<Rightarrow>
                    Out \<lparr> gd_graph = filter_graph G [], gd_min_timestamp = mn,
                          gd_max_timestamp = mx \<rparr>))) \<and>
   (\<forall>sel tap inp. update_elements sel tap None inp = Inr []) \<and>
   (\<forall>sel tap gd inp.
      core_ids inp = [] \<longrightarrow>
        update_elements sel tap (Some gd) (Some inp) =
          get_elements (gd_graph gd)
            (gd_min_timestamp gd + sel / 100 * (gd_max_timestamp gd - gd_min_timestamp gd)) [] tap)"
proof (intro conjI allI impI)
  fix fetch :: "node_id list \<Rightarrow> error + graph" and n_clicks :: "int option" and inp :: "string option"
  show "build_graph fetch None inp = (no_update, no_update)" by (simp add: build_graph_def)
  show "build_graph fetch n_clicks None = (no_update, no_update)" by (simp add: build_graph_def)
  show "build_graph fetch n_clicks (Some []) = (no_update, no_update)" by (simp add: build_graph_def)
next
  fix inp :: string
  show "core_ids inp = [] \<longleftrightarrow> (\<forall>c \<in> set inp. c = CHR '','' \<or> is_space c)"
    by (rule core_ids_empty_iff)
next
  fix fetch :: "node_id list \<Rightarrow> error + graph" and n :: int and inp :: string
  assume "core_ids inp = [] \<and> inp \<noteq> []"
  then show "fst (build_graph fetch (Some n) (Some inp)) =
          (case fetch [] of
             Inl e \<Rightarrow> no_update
           | Inr G \<Rightarrow>
               (case timestamp_range (filter_graph G []) of
                  Inl e \<Rightarrow> no_update
                | Inr (mn, mx) \<Rightarrow>
                    Out \<lparr> gd_graph = filter_graph G [], gd_min_timestamp = mn,
                          gd_max_timestamp = mx \<rparr>))"
    by (simp add: build_graph_def Let_def split: sum.splits prod.splits)
next
  fix sel :: rat and tap :: "node_id option" and inp :: "string option"
  show "update_elements sel tap None inp = Inr []" by (simp add: update_elements_def)
next
  fix sel :: rat and tap :: "node_id option" and gd :: graph_data and inp :: string
  assume "core_ids inp = []"
  then show "update_elements sel tap (Some gd) (Some inp) =
          get_elements (gd_graph gd)
            (gd_min_timestamp gd + sel / 100 * (gd_max_timestamp gd - gd_min_timestamp gd)) [] tap"
    by (simp add: update_elements_def Let_def)
qed

theorem empty_core_request_witness:
  "core_ids '' , '' = [] \<and> '' , '' \<noteq> [] \<and>
   list_all (\<lambda>c. c = CHR '','' \<or> is_space c) '' , '' \<and>
   fst (build_graph (\<lambda>core. Inl FetchError) (Some 1) (Some '' , '')) = no_update \<and>
   fst (build_graph (\<lambda>core. Inr \<lparr> g_nodes = [], g_edges = [] \<rparr>) (Some 1) (Some '' , '')) = no_update \<and>
   update_elements 50 None None (Some '' , '') = Inr [] \<and>
   update_elements 100 None
     (Some \<lparr> gd_graph = G_example, gd_min_timestamp = 1, gd_max_timestamp = 4 \<rparr>) (Some '' , '') =
     get_elements G_example 4 [] None"
proof -
  have c: "core_ids '' , '' = []" by code_simp
  have ne: "'' , '' \<noteq> []" by simp
  have tr: "timestamp_range (filter_graph \<lparr> g_nodes = [], g_edges = [] \<rparr> []) = Inl ValueError"
    by code_simp
  have ts: "(1::rat) + 100 / 100 * (4 - 1) = 4" by simp
  from empty_core_request have
    iff: "core_ids '' , '' = [] \<longleftrightarrow> (\<forall>c \<in> set '' , ''. c = CHR '','' \<or> is_space c)"
    and b1: "fst (build_graph (\<lambda>core. Inl FetchError) (Some 1) (Some '' , '')) =
          (case (Inl FetchError :: error + graph) of
             Inl e \<Rightarrow> no_update
           | Inr G \<Rightarrow>
               (case timestamp_range (filter_graph G []) of
                  Inl e \<Rightarrow> no_update
                | Inr (mn, mx) \<Rightarrow>
                    Out \<lparr> gd_graph = filter_graph G [], gd_min_timestamp = mn,
                          gd_max_timestamp = mx \<rparr>))"
    and b2: "fst (build_graph (\<lambda>core. Inr \<lparr> g_nodes = [], g_edges = [] \<rparr>) (Some 1) (Some '' , '')) =
          (case (Inr \<lparr> g_nodes = [], g_edges = [] \<rparr> :: error + graph) of
             Inl e \<Rightarrow> no_update
           | Inr G \<Rightarrow>
               (case timestamp_range (filter_graph G []) of
                  Inl e \<Rightarrow> no_update
                | Inr (mn, mx) \<Rightarrow>
                    Out \<lparr> gd_graph = filter_graph G [], gd_min_timestamp = mn,
                          gd_max_timestamp = mx \<rparr>))"
    and u1: "update_elements 50 None None (Some '' , '') = Inr []"
    and u2: "update_elements 100 None
       (Some \<lparr> gd_graph = G_example, gd_min_timestamp = 1, gd_max_timestamp = 4 \<rparr>) (Some '' , '') =
       get_elements (gd_graph \<lparr> gd_graph = G_example, gd_min_timestamp = 1, gd_max_timestamp = 4 \<rparr>)
         (gd_min_timestamp \<lparr> gd_graph = G_example, gd_min_timestamp = 1, gd_max_timestamp = 4 \<rparr> +
          100 / 100 * (gd_max_timestamp \<lparr> gd_graph = G_example, gd_min_timestamp = 1, gd_max_timestamp = 4 \<rparr> -
                       gd_min_timestamp \<lparr> gd_graph = G_example, gd_min_timestamp = 1, gd_max_timestamp = 4 \<rparr>))
         [] None"
    using c ne by blast+
  have la: "list_all (\<lambda>c. c = CHR '','' \<or> is_space c) '' , ''"
    using iff c unfolding list_all_iff by blast
  show ?thesis using c ne la b1 b2 u1 u2 tr ts by simp
qed

section \<open>The graph of the Metrics Engine\<close>

lemma has_edge_sym: "has_edge g u v = has_edge g v u"
  by (auto simp: has_edge_def)

lemma simple_edges_add_edge:
  assumes "simple_edges (sg_edges g)"
  shows "simple_edges (sg_edges (add_edge g e))"
proof -
  obtain a b where e: "e = (a, b)" by (cases e)
  let ?g' = "add_node (add_node g a) b"
  have eq: "sg_edges ?g' = sg_edges g" by (simp add: add_node_def)
  show ?thesis
  proof (cases "has_edge ?g' a b")
    case True
    then show ?thesis using assms eq by (simp add: add_edge_def Let_def e)
  next
    case False
    then have "(a, b) \<notin> set (sg_edges g)" "(b, a) \<notin> set (sg_edges g)"
      using eq by (auto simp: has_edge_def)
    moreover have "sg_edges (add_edge g e) = sg_edges g @ [(a, b)]"
      using False eq by (simp add: add_edge_def Let_def e)
    ultimately show ?thesis using assms by (auto simp: simple_edges_def)
  qed
qed

lemma simple_edges_foldl_add_edge:
  "simple_edges (sg_edges g) \<Longrightarrow> simple_edges (sg_edges (foldl add_edge g es))"
  by (induction es arbitrary: g) (auto simp: simple_edges_add_edge)

lemma simple_edges_snapshot_graph: "simple_edges (sg_edges (snapshot_graph G ts core))"
proof -
  have "simple_edges (sg_edges (foldl add_node \<lparr> sg_nodes = [], sg_edges = [] \<rparr> ns))" for ns
    by (simp add: sg_edges_foldl_add_node simple_edges_def)
  then show ?thesis
    by (simp add: snapshot_graph_def Let_def temp_graph_def simple_edges_foldl_add_edge)
qed

lemma distinct_neighbors:
  assumes "simple_edges (sg_edges g)"
  shows "distinct (neighbors g v)"
proof -
  let ?f = "\<lambda>(a, b). if a = v then b else a"
  let ?es = "filter (\<lambda>(a, b). a = v \<or> b = v) (sg_edges g)"
  have d: "distinct ?es" using assms by (simp add: simple_edges_def)
  have "inj_on ?f (set ?es)"
  proof (rule inj_onI)
    fix x y assume x: "x \<in> set ?es" and y: "y \<in> set ?es" and eq: "?f x = ?f y"
    obtain a b where xa: "x = (a, b)" by (cases x)
    obtain c e where yc: "y = (c, e)" by (cases y)
    from x xa have x1: "(a, b) \<in> set (sg_edges g)" "a = v \<or> b = v" by auto
    from y yc have y1: "(c, e) \<in> set (sg_edges g)" "c = v \<or> e = v" by auto
    show "x = y"
    proof (rule ccontr)
      assume ne: "x \<noteq> y"
      then have "(a, b) = (e, c) \<and> a \<noteq> b"
        using eq x1(2) y1(2) xa yc by (auto split: if_splits)
      then have "(b, a) \<in> set (sg_edges g) \<and> a \<noteq> b" using y1(1) by auto
      then show False using assms x1(1) by (auto simp: simple_edges_def)
    qed
  qed
  then show ?thesis unfolding neighbors_def using d by (simp add: distinct_map)
qed

lemma degree_eq:
  assumes "simple_edges (sg_edges g)"
  shows "degree g v = card {u. u \<noteq> v \<and> has_edge g v u} + (if has_edge g v v then 2 else 0)"
proof -
  have fin: "finite {w. has_edge g v w}" using set_neighbors[of g v, symmetric] by simp
  have len: "length (neighbors g v) = card {w. has_edge g v w}"
    using distinct_card[OF distinct_neighbors[OF assms, of v]] set_neighbors[of g v] by simp
  have loop: "(v, v) \<in> set (sg_edges g) \<longleftrightarrow> has_edge g v v" by (simp add: has_edge_def)
  show ?thesis
  proof (cases "has_edge g v v")
    case True
    have "{w. has_edge g v w} = insert v {u. u \<noteq> v \<and> has_edge g v u}" using True by auto
    moreover have "finite {u. u \<noteq> v \<and> has_edge g v u}" using fin by (rule rev_finite_subset) auto
    ultimately have "card {w. has_edge g v w} = Suc (card {u. u \<noteq> v \<and> has_edge g v u})"
      by simp
    then show ?thesis using True len loop by (simp add: degree_def)
  next
    case False
    have "{w. has_edge g v w} = {u. u \<noteq> v \<and> has_edge g v u}" using False by auto
    then show ?thesis using False len loop by (simp add: degree_def)
  qed
qed

lemma map_of_tabulate:
  "v \<in> set ns \<Longrightarrow> map_of (map (\<lambda>n. (n, f n)) ns) v = Some (f v)"
  by (induction ns) auto

lemma degree_centrality_lookup:
  assumes "2 \<le> length (sg_nodes g)" "v \<in> set (sg_nodes g)"
  shows "map_of (degree_centrality g) v =
           Some (of_nat (degree g v) / (of_nat (length (sg_nodes g)) - 1))"
  using assms by (simp add: degree_centrality_def map_of_tabulate)

lemma betweenness_centrality_lookup:
  assumes "v \<in> set (sg_nodes g)"
  shows "map_of (betweenness_centrality g) v =
           Some (betweenness_sum g v *
                 (if 2 < length (sg_nodes g)
                  then 1 / ((of_nat (length (sg_nodes g)) - 1) * (of_nat (length (sg_nodes g)) - 2))
                  else 1))"
  using assms by (simp add: betweenness_centrality_def Let_def map_of_tabulate)

section \<open>Isolated nodes and small graphs\<close>

lemma all_shortest_paths_walks:
  assumes "p \<in> set (all_shortest_paths g s t)"
  shows "walk_from g s p" and "last p = t"
proof -
  have "list_all (walk_from g s) [[s]]" by (simp add: walk_from_def)
  from bfs_paths_walks[OF this, of t "length (sg_nodes g)"] assms
  show "walk_from g s p" and "last p = t"
    by (auto simp: all_shortest_paths_def list_all_iff)
qed

lemma walk_node_has_edge:
  assumes "walk_from g s p" "v \<in> set p" "v \<noteq> s"
  shows "\<exists>u. has_edge g u v"
proof -
  from assms(1) have ne: "p \<noteq> []" and hd: "hd p = s"
    and all: "list_all (\<lambda>(u, v). has_edge g u v) (zip (butlast p) (tl p))"
    by (simp_all add: walk_from_def)
  have "v \<in> set (tl p)" using assms(2,3) ne hd by (cases p) auto
  moreover have "length (butlast p) = length (tl p)" by simp
  ultimately obtain u where "(u, v) \<in> set (zip (butlast p) (tl p))"
    by (metis in_set_impl_in_set_zip2)
  then show ?thesis using all by (auto simp: list_all_iff)
qed

lemma sum_list_zeros: "(\<forall>x \<in> set xs. x = (0::rat)) \<Longrightarrow> sum_list xs = 0"
  by (induction xs) auto

lemma pair_dependency_isolated:
  assumes "\<forall>u. \<not> has_edge g v u" "s \<noteq> v"
  shows "pair_dependency g v s t = 0"
proof -
  have "filter (\<lambda>p. v \<in> set p) (all_shortest_paths g s t) = []"
  proof (rule ccontr)
    assume "filter (\<lambda>p. v \<in> set p) (all_shortest_paths g s t) \<noteq> []"
    then obtain p where "p \<in> set (all_shortest_paths g s t)" "v \<in> set p"
      by (auto simp: filter_empty_conv)
    then obtain u where "has_edge g u v"
      using walk_node_has_edge[OF all_shortest_paths_walks(1)] assms(2) by metis
    then show False using assms(1) has_edge_sym by blast
  qed
  then show ?thesis by (simp add: pair_dependency_def Let_def)
qed

lemma betweenness_sum_isolated:
  assumes "\<forall>u. \<not> has_edge g v u"
  shows "betweenness_sum g v = 0"
  unfolding betweenness_sum_def
  by (rule sum_list_zeros) (auto simp: pair_dependency_isolated[OF assms])

lemma degree_isolated: "\<forall>u. \<not> has_edge g v u \<Longrightarrow> degree g v = 0"
  using set_neighbors[of g v] by (simp add: degree_def has_edge_def)

lemma betweenness_sum_small:
  assumes "length (sg_nodes g) \<le> 2" "v \<in> set (sg_nodes g)"
  shows "betweenness_sum g v = 0"
proof -
  { fix s t assume st: "s \<in> set (sg_nodes g)" "s \<noteq> v" "t \<in> set (sg_nodes g)" "t \<noteq> v" "t \<noteq> s"
    have "card {v, s, t} \<le> card (set (sg_nodes g))"
      by (rule card_mono) (use st assms(2) in auto)
    moreover have "card {v, s, t} = 3" using st by simp
    moreover have "card (set (sg_nodes g)) \<le> length (sg_nodes g)" by (rule card_length)
    ultimately have False using assms(1) by simp }
  note three = this
  show ?thesis unfolding betweenness_sum_def
    by (rule sum_list_zeros) (use three in auto)
qed

section \<open>Multiplicities do not reach the Metrics Engine\<close>

lemma add_node_present: "n \<in> set (sg_nodes g) \<Longrightarrow> add_node g n = g"
  by (simp add: add_node_def set_add_def)

lemma add_edge_present:
  assumes "fst e \<in> set (sg_nodes g)" "snd e \<in> set (sg_nodes g)" "has_edge g (fst e) (snd e)"
  shows "add_edge g e = g"
  using assms by (simp add: add_edge_def Let_def add_node_present)

lemma foldl_add_edge_present:
  assumes "\<forall>e \<in> set es. fst e \<in> set (sg_nodes g) \<and> snd e \<in> set (sg_nodes g) \<and>
                           has_edge g (fst e) (snd e)"
  shows "foldl add_edge g es = g"
  using assms by (induction es) (simp_all add: add_edge_present)

lemma temp_graph_twice: "temp_graph act (es @ es) = temp_graph act es"
proof -
  let ?g0 = "foldl add_node \<lparr> sg_nodes = [], sg_edges = [] \<rparr> act"
  let ?ps = "map (\<lambda>e. (ev_source e, ev_target e)) es"
  let ?g1 = "foldl add_edge ?g0 ?ps"
  have "\<forall>e \<in> set ?ps. fst e \<in> set (sg_nodes ?g1) \<and> snd e \<in> set (sg_nodes ?g1) \<and>
                           has_edge ?g1 (fst e) (snd e)"
    by (auto simp: sg_nodes_foldl_add_edge has_edge_foldl_add_edge image_iff)
  from foldl_add_edge_present[OF this] show ?thesis by (simp add: temp_graph_def)
qed

lemma collect_active_unchanged:
  assumes "\<forall>e \<in> set es. ev_timestamp e \<le> ts \<longrightarrow>
             ev_source e \<in> set (active_nodes st) \<and> ev_target e \<in> set (active_nodes st)"
  shows "active_nodes (foldl (collect_step ts) st es) = active_nodes st"
  using assms
proof (induction es arbitrary: st)
  case Nil
  then show ?case by simp
next
  case (Cons e es)
  have a: "active_nodes (collect_step ts st e) = active_nodes st"
    using Cons.prems by (auto simp: collect_step_def Let_def set_add_def)
  have "active_nodes (foldl (collect_step ts) (collect_step ts st e) es) =
          active_nodes (collect_step ts st e)"
    by (rule Cons.IH) (use Cons.prems a in auto)
  then show ?case using a by simp
qed

lemma snapshot_graph_doubled: "snapshot_graph (doubled G) ts core = snapshot_graph G ts core"
proof -
  let ?st0 = "\<lparr> active_nodes = py_set core, edge_dict = [], edges_up_to_timestamp = [] \<rparr>"
  let ?S = "foldl (collect_step ts) ?st0 (g_edges G)"
  have "active_nodes (foldl (collect_step ts) ?S (g_edges G)) = active_nodes ?S"
    by (rule collect_active_unchanged) (auto simp: collect_active_set)
  then have act: "active_nodes (collect_edges (doubled G) ts core) = active_nodes (collect_edges G ts core)"
    by (simp add: collect_edges_def doubled_def)
  have up: "edges_up_to_timestamp (collect_edges (doubled G) ts core) =
              edges_up_to_timestamp (collect_edges G ts core) @ edges_up_to_timestamp (collect_edges G ts core)"
    by (simp add: up_to_collect_edges doubled_def)
  show ?thesis unfolding snapshot_graph_def Let_def act up by (rule temp_graph_twice)
qed

lemma pair_count_doubled:
  "pair_count (g_edges (doubled G)) ts u v = 2 * pair_count (g_edges G) ts u v"
  by (simp add: pair_count_def doubled_def)

section \<open>The metrics in the returned snapshot\<close>

lemma node_element_metrics:
  assumes "node_element G tG core c b mb n = Inr (Node d)"
  shows "nd_id d = n"
    and "centrality d = (if n \<in> set core then None else Some (dict_get c n 0))"
    and "betweenness d = (if n \<in> set core then None else Some (dict_get b n 0))"
proof -
  from assms obtain a where "map_of (g_nodes G) n = Some a"
    by (cases "map_of (g_nodes G) n") (simp_all add: node_element_def)
  then show "nd_id d = n"
    and "centrality d = (if n \<in> set core then None else Some (dict_get c n 0))"
    and "betweenness d = (if n \<in> set core then None else Some (dict_get b n 0))"
    using assms by (auto simp: node_element_def Let_def)
qed

lemma snapshot_metrics:
  assumes "get_elements G ts core tap = Inr els" "d \<in> set (node_elements els)"
  shows "centrality d =
           (if nd_id d \<in> set core then None
            else Some (dict_get (degree_centrality (snapshot_graph G ts core)) (nd_id d) 0))"
    and "betweenness d =
           (if nd_id d \<in> set core then None
            else Some (dict_get (betweenness_centrality (snapshot_graph G ts core)) (nd_id d) 0))"
proof -
  let ?tG = "snapshot_graph G ts core"
  let ?f = "node_element G ?tG core (degree_centrality ?tG) (betweenness_centrality ?tG)
              (max_or_one (betweenness_centrality ?tG))"
  from get_elements_InrD[OF assms(1)] obtain mn mx ds hl where
    ne: "snapshot_node_elements G ts core = Inr (map Node ds)"
    and hl: "highlight ?tG core tap
             (map Node ds @ (if mn < ts then map (\<lambda>(k, d). Edge d) (ranked_edges G ts core mn mx)
                             else [])) = Inr hl"
    and els: "els = (if ts \<le> mn then filter is_core_element hl else hl)"
    by blast
  let ?cyto = "map Node ds @ (if mn < ts then map (\<lambda>(k, d). Edge d) (ranked_edges G ts core mn mx)
                             else [])"
  have cy: "node_elements ?cyto = ds"
    by (simp add: node_elements_simps elements_of_nodes elements_of_edges)
  have "set (node_elements els) \<subseteq> set (node_elements hl)"
    unfolding els by (cases "ts \<le> mn") (auto simp: node_elements_filter_core)
  then have "d \<in> set (node_elements hl)" using assms(2) by blast
  then obtain d0 where d0: "d0 \<in> set ds" "nd_id d = nd_id d0" "centrality d = centrality d0"
    "betweenness d = betweenness d0"
  proof (cases tap)
    case None
    then have "node_elements hl = ds" using hl cy by (simp add: highlight_None)
    then show ?thesis using that \<open>d \<in> set (node_elements hl)\<close> by auto
  next
    case (Some f)
    with highlight_Some_Inr hl obtain hn he where "hl = map (apply_highlight hn he) ?cyto" by blast
    then have "node_elements hl = map (\<lambda>d. d\<lparr> node_to_core := Some (nd_id d \<in> set hn) \<rparr>) ds"
      using cy by (simp only: node_elements_apply_highlight)
    then show ?thesis using that \<open>d \<in> set (node_elements hl)\<close> by auto
  qed
  have "list_all2 (\<lambda>n el. ?f n = Inr el) (active_nodes (collect_edges G ts core)) (map Node ds)"
    using ne by (intro for_each_Inr) (simp add: snapshot_node_elements_def Let_def)
  then obtain n where n: "?f n = Inr (Node d0)"
    using d0(1) by (auto simp: list_all2_conv_all_nth in_set_conv_nth)
  from node_element_metrics[OF n] d0
  show "centrality d =
           (if nd_id d \<in> set core then None
            else Some (dict_get (degree_centrality ?tG) (nd_id d) 0))"
    and "betweenness d =
           (if nd_id d \<in> set core then None
            else Some (dict_get (betweenness_centrality ?tG) (nd_id d) 0))"
    by simp_all
qed

section \<open>Node metrics\<close>

text \<open>
  C7, as claimed: the metrics are those of the undirected simple projection of the snapshot, so
  that degree centrality is the number of aggregated edges at a node divided by \<open>n - 1\<close>. It is
  not: the self-loop event \<open>(B,B,2)\<close> of \<open>G_pair\<close> yields no aggregated edge but is an edge of the
  temporary graph, where it counts twice in the degree of \<open>B\<close>. The snapshot at cutoff 3 has two
  nodes and the single edge \<open>A-B\<close>, and reports degree centrality 3 for \<open>B\<close> instead of 1.
\<close>

theorem loop_degree_centrality:
  "get_elements G_pair 3 [''A''] None = Inr snap_pair \<and>
   map (\<lambda>d. (nd_id d, centrality d)) (node_elements snap_pair) = [(''A'', None), (''B'', Some 3)] \<and>
   map (\<lambda>d. (source d, target d)) (edge_elements snap_pair) = [(''A'', ''B'')] \<and>
   projection_degree snap_pair ''B'' = 1 \<and>
   spec_degree_centrality snap_pair ''B'' = 1 \<and>
   sg_edges (snapshot_graph G_pair 3 [''A'']) = [(''A'', ''B''), (''B'', ''B'')] \<and>
   degree (snapshot_graph G_pair 3 [''A'']) ''B'' = 3"
proof -
  have "map (\<lambda>d. (nd_id d, centrality d)) (node_elements snap_pair) = [(''A'', None), (''B'', Some 3)]"
    by code_simp
  moreover have "map (\<lambda>d. (source d, target d)) (edge_elements snap_pair) = [(''A'', ''B'')]"
    by code_simp
  moreover have "projection_degree snap_pair ''B'' = 1" by code_simp
  moreover have "spec_degree_centrality snap_pair ''B'' = 1" by code_simp
  moreover have "sg_edges (snapshot_graph G_pair 3 [''A'']) = [(''A'', ''B''), (''B'', ''B'')]"
    by code_simp
  moreover have "degree (snapshot_graph G_pair 3 [''A'']) ''B'' = 3" by code_simp
  ultimately show ?thesis using pair_snapshot by simp
qed

text \<open>
  C7, amended: the metrics are computed on the temporary undirected graph of the snapshot. Its
  nodes are the active nodes; two accounts, or an account and itself, are adjacent exactly when
  at least one qualifying event joins them, so that multiplicities and aggregation weights play no
  role (with every event doubled the graph is the same), while a self-loop event stays as a loop.
  With at least two nodes the degree centrality of a node is its degree in that graph, a loop
  counting twice, divided by \<open>n - 1\<close>. Betweenness is the sum, over the ordered pairs of distinct
  other nodes, of the fraction of the shortest paths (every edge one hop) that pass through the
  node, divided by \<open>(n - 1) (n - 2)\<close> when \<open>n > 2\<close>. A node without any edge has degree and
  betweenness 0, and in a graph of at most two nodes every betweenness is 0. The returned
  snapshot carries these values for the non-core nodes and none for core nodes. In the example
  at cutoff 4 the betweenness of \<open>C\<close> is \<open>2/3\<close> and that of \<open>B\<close> is 0.
\<close>

theorem node_metrics:
  "(\<forall>G ts core u v.
      set (sg_nodes (snapshot_graph G ts core)) = set (active_nodes (collect_edges G ts core)) \<and>
      (has_edge (snapshot_graph G ts core) u v \<longleftrightarrow> 0 < pair_count (g_edges G) ts u v) \<and>
      snapshot_graph (doubled G) ts core = snapshot_graph G ts core \<and>
      pair_count (g_edges (doubled G)) ts u v = 2 * pair_count (g_edges G) ts u v \<and>
      degree (snapshot_graph G ts core) v =
        card {u. u \<noteq> v \<and> has_edge (snapshot_graph G ts core) v u} +
        (if has_edge (snapshot_graph G ts core) v v then 2 else 0)) \<and>
   (\<forall>G ts core v.
      v \<in> set (sg_nodes (snapshot_graph G ts core)) \<longrightarrow>
        (2 \<le> length (sg_nodes (snapshot_graph G ts core)) \<longrightarrow>
           map_of (degree_centrality (snapshot_graph G ts core)) v =
             Some (of_nat (degree (snapshot_graph G ts core) v) /
                   (of_nat (length (sg_nodes (snapshot_graph G ts core))) - 1))) \<and>
        map_of (betweenness_centrality (snapshot_graph G ts core)) v =
          Some (betweenness_sum (snapshot_graph G ts core) v *
                (if 2 < length (sg_nodes (snapshot_graph G ts core))
                 then 1 / ((of_nat (length (sg_nodes (snapshot_graph G ts core))) - 1) *
                           (of_nat (length (sg_nodes (snapshot_graph G ts core))) - 2))
                 else 1)) \<and>
        (length (sg_nodes (snapshot_graph G ts core)) \<le> 2 \<longrightarrow>
           betweenness_sum (snapshot_graph G ts core) v = 0) \<and>
        ((\<forall>u. \<not> has_edge (snapshot_graph G ts core) v u) \<longrightarrow>
           degree (snapshot_graph G ts core) v = 0 \<and>
           betweenness_sum (snapshot_graph G ts core) v = 0)) \<and>
   (\<forall>G ts core tap els.
      get_elements G ts core tap = Inr els \<longrightarrow>
        (\<forall>d \<in> set (node_elements els).
           centrality d =
             (if nd_id d \<in> set core then None
              else Some (dict_get (degree_centrality (snapshot_graph G ts core)) (nd_id d) 0)) \<and>
           betweenness d =
             (if nd_id d \<in> set core then None
              else Some (dict_get (betweenness_centrality (snapshot_graph G ts core)) (nd_id d) 0)))) \<and>
   get_elements G_example 4 [''A''] None = Inr snap_example \<and>
   sg_edges (snapshot_graph G_example 4 [''A'']) =
     [(''B'', ''A''), (''C'', ''A''), (''C'', ''B''), (''D'', ''C'')] \<and>
   betweenness_centrality (snapshot_graph G_example 4 [''A'']) =
     [(''A'', 0), (''B'', 0), (''C'', 2 / 3), (''D'', 0)] \<and>
   map (\<lambda>d. (nd_id d, betweenness d)) (node_elements snap_example) =
     [(''A'', None), (''B'', Some 0), (''C'', Some (2 / 3)), (''D'', Some 0)]"
proof (intro conjI allI impI ballI)
  fix G ts core u v
  show "set (sg_nodes (snapshot_graph G ts core)) = set (active_nodes (collect_edges G ts core))"
    by (rule sg_nodes_snapshot_graph)
  show "has_edge (snapshot_graph G ts core) u v \<longleftrightarrow> 0 < pair_count (g_edges G) ts u v"
    by (rule has_edge_snapshot_graph)
  show "snapshot_graph (doubled G) ts core = snapshot_graph G ts core"
    by (rule snapshot_graph_doubled)
  show "pair_count (g_edges (doubled G)) ts u v = 2 * pair_count (g_edges G) ts u v"
    by (rule pair_count_doubled)
  show "degree (snapshot_graph G ts core) v =
        card {u. u \<noteq> v \<and> has_edge (snapshot_graph G ts core) v u} +
        (if has_edge (snapshot_graph G ts core) v v then 2 else 0)"
    by (rule degree_eq[OF simple_edges_snapshot_graph])
next
  fix G ts core v
  assume v: "v \<in> set (sg_nodes (snapshot_graph G ts core))"
  show "map_of (betweenness_centrality (snapshot_graph G ts core)) v =
          Some (betweenness_sum (snapshot_graph G ts core) v *
                (if 2 < length (sg_nodes (snapshot_graph G ts core))
                 then 1 / ((of_nat (length (sg_nodes (snapshot_graph G ts core))) - 1) *
                           (of_nat (length (sg_nodes (snapshot_graph G ts core))) - 2))
                 else 1))"
    by (rule betweenness_centrality_lookup[OF v])
  { assume "2 \<le> length (sg_nodes (snapshot_graph G ts core))"
    then show "map_of (degree_centrality (snapshot_graph G ts core)) v =
             Some (of_nat (degree (snapshot_graph G ts core) v) /
                   (of_nat (length (sg_nodes (snapshot_graph G ts core))) - 1))"
      using v by (rule degree_centrality_lookup) }
  { assume "length (sg_nodes (snapshot_graph G ts core)) \<le> 2"
    then show "betweenness_sum (snapshot_graph G ts core) v = 0"
      using v by (rule betweenness_sum_small) }
  { assume iso: "\<forall>u. \<not> has_edge (snapshot_graph G ts core) v u"
    show "degree (snapshot_graph G ts core) v = 0" by (rule degree_isolated[OF iso])
    show "betweenness_sum (snapshot_graph G ts core) v = 0" by (rule betweenness_sum_isolated[OF iso]) }
next
  fix G ts core tap els d
  assume ge: "get_elements G ts core tap = Inr els" and d: "d \<in> set (node_elements els)"
  show "centrality d =
             (if nd_id d \<in> set core then None
              else Some (dict_get (degree_centrality (snapshot_graph G ts core)) (nd_id d) 0))"
    by (rule snapshot_metrics(1)[OF ge d])
  show "betweenness d =
             (if nd_id d \<in> set core then None
              else Some (dict_get (betweenness_centrality (snapshot_graph G ts core)) (nd_id d) 0))"
    by (rule snapshot_metrics(2)[OF ge d])
next
  show "get_elements G_example 4 [''A''] None = Inr snap_example" by (rule example_snapshot)
  show "sg_edges (snapshot_graph G_example 4 [''A'']) =
     [(''B'', ''A''), (''C'', ''A''), (''C'', ''B''), (''D'', ''C'')]" by code_simp
  show "betweenness_centrality (snapshot_graph G_example 4 [''A'']) =
     [(''A'', 0), (''B'', 0), (''C'', 2 / 3), (''D'', 0)]" by code_simp
  show "map (\<lambda>d. (nd_id d, betweenness d)) (node_elements snap_example) =
     [(''A'', None), (''B'', Some 0), (''C'', Some (2 / 3)), (''D'', Some 0)]" by code_simp
qed

theorem node_metrics_witness:
  "''B'' \<in> set (sg_nodes (snapshot_graph G_pair 3 [''A''])) \<and>
   2 \<le> length (sg_nodes (snapshot_graph G_pair 3 [''A''])) \<and>
   map_of (degree_centrality (snapshot_graph G_pair 3 [''A''])) ''B'' = Some 3 \<and>
   betweenness_sum (snapshot_graph G_pair 3 [''A'']) ''B'' = 0 \<and>
   get_elements G_pair 3 [''A''] None = Inr snap_pair \<and>
   list_all (\<lambda>d. centrality d =
                   (if nd_id d \<in> set [''A''] then None
                    else Some (dict_get (degree_centrality (snapshot_graph G_pair 3 [''A''])) (nd_id d) 0)))
     (node_elements snap_pair)"
proof -
  let ?tG = "snapshot_graph G_pair 3 [''A'']"
  have nodes: "sg_nodes ?tG = [''A'', ''B'']" by code_simp
  have deg: "degree ?tG ''B'' = 3" by code_simp
  have B: "''B'' \<in> set (sg_nodes ?tG)" and n2: "2 \<le> length (sg_nodes ?tG)"
    and n2': "length (sg_nodes ?tG) \<le> 2"
    unfolding nodes by simp_all
  from node_metrics have
    dc: "map_of (degree_centrality ?tG) ''B'' =
           Some (of_nat (degree ?tG ''B'') / (of_nat (length (sg_nodes ?tG)) - 1))"
    and bs: "betweenness_sum ?tG ''B'' = 0"
    and out: "\<forall>d \<in> set (node_elements snap_pair).
           centrality d =
             (if nd_id d \<in> set [''A''] then None
              else Some (dict_get (degree_centrality ?tG) (nd_id d) 0))"
    using B n2 n2' pair_snapshot by blast+
  have "map_of (degree_centrality ?tG) ''B'' = Some 3"
    unfolding dc deg nodes by simp
  then show ?thesis using B n2 bs pair_snapshot out by (simp add: list_all_iff)
qed

end
